(* ===== verification/Prelude.thy ===== *)
theory Prelude
  imports Main "HOL-Library.Word"
begin

text \<open>
  Prelude of the development: the byte-level data every component of the RPC
  framework shares (\<open>std::string\<close> contents, \<open>uint32_t\<close> images in memory), the model of
  \<open>std::string::resize\<close> and \<open>memcpy\<close>, the exceptions that cross function
  boundaries, and the generic reachability relation of the state machines.
\<close>

unbundle bit_operations_syntax

named_theorems byte_simps \<open>memory images of integers, resize and memcpy\<close>
named_theorems guard_simps \<open>constants and small guards that proofs unfold together\<close>

section \<open>Bytes, strings and exceptions\<close>

type_synonym byte = "8 word"
type_synonym bytes = "8 word list"
type_synonym u16 = "16 word"
type_synonym u32 = "32 word"
type_synonym u64 = "64 word"

lemma unat_byte_bound: "unat (b :: byte) < 256"
  using unsigned_less [of b, where ?'a = nat] by simp

text \<open>A C++ string literal: the bytes of its ASCII characters.\<close>

definition str :: "string \<Rightarrow> bytes" where
  "str s = map (\<lambda>c. of_char c) s"

lemma length_str [simp]: "length (str s) = length s"
  by (simp add: str_def)

lemma str_eq_Nil [simp]: "str s = [] \<longleftrightarrow> s = []"
  by (simp add: str_def)

lemma Nil_eq_str [simp]: "[] = str s \<longleftrightarrow> s = []"
  by (auto simp: str_def)

text \<open>\<open>std::to_string\<close> of an integer.\<close>

fun decimal :: "nat \<Rightarrow> bytes" where
  "decimal n = (if n < 10 then [of_nat (48 + n)] else decimal (n div 10) @ [of_nat (48 + n mod 10)])"

declare decimal.simps [simp del]

definition to_string :: "int \<Rightarrow> bytes" where
  "to_string i = (if i < 0 then 45 # decimal (nat (- i)) else decimal (nat i))"

text \<open>
  What a C++ call can do instead of returning: throw an exception of the standard library or
  of nlohmann::json, or run into undefined behaviour (a division by zero, a read outside an
  object). A function that may do so returns \<open>fault + 'a\<close>; a \<open>catch (const std::exception &)\<close>
  catches the faults that are \<open>thrown\<close>, never undefined behaviour.
\<close>

datatype fault =
    Bad_alloc | Out_of_range | Invalid_argument | Json_exception | Runtime_error
  | Division_by_zero | Bad_access | Sigpipe

fun thrown :: "fault \<Rightarrow> bool" where
  "thrown Division_by_zero = False"
| "thrown Bad_access = False"
| "thrown Sigpipe = False"
| "thrown _ = True"

text \<open>
  A function that makes system calls takes the results the kernel will give as an argument. It
  is \<open>Blocked\<close> when it makes one more call than there are results: it has not returned.
\<close>

datatype 'a run = Blocked | Fault fault | Done 'a

fun lift_run :: "fault + 'a \<Rightarrow> 'a run" where
  "lift_run (Inl e) = Fault e"
| "lift_run (Inr x) = Done x"

section \<open>Integers in memory\<close>

text \<open>
  The host is little-endian (x86-64): \<open>memcpy\<close> of a \<open>uint32_t\<close> gives its four bytes
  from the least significant on.
\<close>

definition le32 :: "u32 \<Rightarrow> bytes" where
  "le32 w = [ucast w, ucast (drop_bit 8 w), ucast (drop_bit 16 w), ucast (drop_bit 24 w)]"

fun of_le32 :: "bytes \<Rightarrow> u32" where
  "of_le32 [a, b, c, d] =
     ucast a OR push_bit 8 (ucast b) OR push_bit 16 (ucast c) OR push_bit 24 (ucast d)"
| "of_le32 _ = 0"

lemma length_le32 [simp]: "length (le32 w) = 4"
  by (simp add: le32_def)

lemma le32_neq_Nil [simp]: "le32 w \<noteq> []"
  by (simp add: le32_def)

lemma of_le32_le32 [simp]: "of_le32 (le32 w) = w"
proof (rule bit_word_eqI)
  fix n :: nat
  assume "n < LENGTH(32)"
  then show "bit (of_le32 (le32 w)) n = bit w n"
    unfolding le32_def of_le32.simps
    by (cases "n < 8"; cases "n < 16"; cases "n < 24") (auto simp: bit_simps not_less)
qed

lemma bit_byte_overflow: "8 \<le> n \<Longrightarrow> \<not> bit (b :: byte) n"
  by (auto dest: bit_imp_le_length)

lemma le32_of_le32: "length bs = 4 \<Longrightarrow> le32 (of_le32 bs) = bs"
proof -
  assume "length bs = 4"
  then obtain a b c d where bs: "bs = [a, b, c, d]"
    by (auto simp: length_Suc_conv numeral_eq_Suc)
  show ?thesis
    unfolding bs of_le32.simps le32_def
    by (auto intro!: bit_word_eqI simp: bit_simps bit_byte_overflow)
qed

text \<open>
  \<open>htonl\<close> and \<open>ntohl\<close> on a little-endian host reverse the bytes of their argument, so the
  memory image of \<open>htonl x\<close> is big-endian.
\<close>

definition htonl :: "u32 \<Rightarrow> u32" where
  "htonl w = of_le32 (rev (le32 w))"

definition ntohl :: "u32 \<Rightarrow> u32" where
  "ntohl w = of_le32 (rev (le32 w))"

lemma le32_htonl [byte_simps]: "le32 (htonl w) = rev (le32 w)"
  by (simp add: htonl_def le32_of_le32)

lemma ntohl_of_le32 [byte_simps]: "length bs = 4 \<Longrightarrow> ntohl (of_le32 bs) = of_le32 (rev bs)"
  by (simp add: ntohl_def le32_of_le32)

lemma ntohl_htonl [simp]: "ntohl (htonl w) = w"
  by (simp add: htonl_def ntohl_of_le32)

lemma drop_plus: "drop (m + n) xs = drop n (drop m xs)"
  by (simp add: add.commute)

lemma take_drop_split: "drop m xs = take n (drop m xs) @ drop (m + n) xs"
  by (simp add: drop_plus del: drop_drop)

section \<open>\<open>std::string::resize\<close> and \<open>memcpy\<close>\<close>

definition resize :: "nat \<Rightarrow> bytes \<Rightarrow> bytes" where
  "resize n s = take n s @ replicate (n - length s) 0"

definition memcpy_at :: "nat \<Rightarrow> bytes \<Rightarrow> bytes \<Rightarrow> bytes" where
  "memcpy_at pos src buf = take pos buf @ src @ drop (pos + length src) buf"

lemma length_resize [simp]: "length (resize n s) = n"
  by (simp add: resize_def)

lemma resize_id [byte_simps]: "length s = n \<Longrightarrow> resize n s = s"
  by (simp add: resize_def)

lemma resize_take: "n \<le> length s \<Longrightarrow> resize n s = take n s"
  by (simp add: resize_def)

lemma length_memcpy_at [simp]:
  "pos + length src \<le> length buf \<Longrightarrow> length (memcpy_at pos src buf) = length buf"
  by (simp add: memcpy_at_def)

text \<open>
  A serializer fills a buffer from left to right: a copy at the end of the part already
  written extends that part.
\<close>

lemma memcpy_at_next [byte_simps]:
  "length p = pos \<Longrightarrow> memcpy_at pos src (p @ r) = (p @ src) @ drop (length src) r"
  by (simp add: memcpy_at_def)

lemma memcpy_at_0 [byte_simps]: "memcpy_at 0 src buf = src @ drop (length src) buf"
  by (simp add: memcpy_at_def)

text \<open>
  Reading a \<open>uint32_t\<close> at \<open>&in[pos]\<close>. The characters \<open>in[0]\<close> .. \<open>in[size()]\<close> may be
  read, the last being the terminating zero; a read beyond them is undefined behaviour.
\<close>

definition load32 :: "bytes \<Rightarrow> nat \<Rightarrow> fault + u32" where
  "load32 s pos =
     (if pos + 4 \<le> length s + 1 then Inr (of_le32 (take 4 (drop pos (s @ [0])))) else Inl Bad_access)"

lemma load32_in [byte_simps]:
  "pos + 4 \<le> length s \<Longrightarrow> load32 s pos = Inr (of_le32 (take 4 (drop pos s)))"
  by (simp add: load32_def)

lemma load32_oob: "length s + 1 < pos + 4 \<Longrightarrow> load32 s pos = Inl Bad_access"
  by (simp add: load32_def)

lemma load32_next [byte_simps]:
  "length p = pos \<Longrightarrow> load32 (p @ le32 w @ r) pos = Inr w"
  by (simp add: load32_in)

definition substr :: "bytes \<Rightarrow> nat \<Rightarrow> nat \<Rightarrow> bytes" where
  "substr s pos n = take n (drop pos s)"

lemma length_substr [simp]: "length (substr s pos n) = min n (length s - pos)"
  by (simp add: substr_def min.commute)

lemma substr_next [byte_simps]: "length p = pos \<Longrightarrow> length x = n \<Longrightarrow> substr (p @ x @ r) pos n = x"
  by (simp add: substr_def)

lemma unat_of_nat_u32 [byte_simps]: "n < 2 ^ 32 \<Longrightarrow> unat (of_nat n :: u32) = n"
  by (simp add: unat_of_nat take_bit_eq_mod)

section \<open>Reachable states of a step relation\<close>

inductive reach :: "('s \<Rightarrow> bool) \<Rightarrow> ('s \<Rightarrow> 's \<Rightarrow> bool) \<Rightarrow> 's \<Rightarrow> bool"
  for init :: "'s \<Rightarrow> bool" and step :: "'s \<Rightarrow> 's \<Rightarrow> bool" where
  reach_init: "init s \<Longrightarrow> reach init step s"
| reach_step: "reach init step s \<Longrightarrow> step s t \<Longrightarrow> reach init step t"

inductive steps :: "('s \<Rightarrow> 's \<Rightarrow> bool) \<Rightarrow> 's \<Rightarrow> 's \<Rightarrow> bool"
  for step :: "'s \<Rightarrow> 's \<Rightarrow> bool" where
  steps_refl: "steps step s s"
| steps_snoc: "steps step s t \<Longrightarrow> step t u \<Longrightarrow> steps step s u"

lemma steps_reach: "steps step s t \<Longrightarrow> reach init step s \<Longrightarrow> reach init step t"
  by (induction rule: steps.induct) (auto intro: reach_step)

lemma steps_single: "step s t \<Longrightarrow> steps step s t"
  by (blast intro: steps_refl steps_snoc)

lemma steps_trans:
  assumes "steps step t u" and "steps step s t"
  shows "steps step s u"
  using assms by (induction rule: steps.induct) (auto intro: steps_snoc)

lemma steps_stable:
  assumes "steps step s t" and "P s" and "\<And>u v. step u v \<Longrightarrow> P u \<Longrightarrow> P v"
  shows "P t"
  using assms by (induction rule: steps.induct) auto

text \<open>
  The contract of a state machine with an invariant; every component that runs as a state
  machine interprets it.
\<close>

locale invariant_system =
  fixes init :: "'s \<Rightarrow> bool" and step :: "'s \<Rightarrow> 's \<Rightarrow> bool" and inv :: "'s \<Rightarrow> bool"
  assumes inv_init: "init s \<Longrightarrow> inv s"
    and inv_step: "step s t \<Longrightarrow> inv s \<Longrightarrow> inv t"
begin

lemma reach_inv: "reach init step s \<Longrightarrow> inv s"
  by (induction rule: reach.induct) (auto intro: inv_init inv_step)

lemma steps_inv: "steps step s t \<Longrightarrow> inv s \<Longrightarrow> inv t"
  by (induction rule: steps.induct) (auto intro: inv_step)

end

text \<open>
  \<open>inevitable step goal s\<close>: whatever steps are taken from \<open>s\<close>, a state with \<open>goal\<close> is reached
  after finitely many, and no run gets stuck before.
\<close>

inductive inevitable :: "('s \<Rightarrow> 's \<Rightarrow> bool) \<Rightarrow> ('s \<Rightarrow> bool) \<Rightarrow> 's \<Rightarrow> bool"
  for step :: "'s \<Rightarrow> 's \<Rightarrow> bool" and goal :: "'s \<Rightarrow> bool" where
  inevitable_now: "goal s \<Longrightarrow> inevitable step goal s"
| inevitable_later: "\<exists>t. step s t \<Longrightarrow> (\<And>t. step s t \<Longrightarrow> inevitable step goal t) \<Longrightarrow> inevitable step goal s"

text \<open>What every step keeps still holds when the goal is reached.\<close>

lemma inevitable_mono:
  assumes "inevitable step goal s" and "I s" and "\<And>u v. step u v \<Longrightarrow> I u \<Longrightarrow> I v"
    and "\<And>t. I t \<Longrightarrow> goal t \<Longrightarrow> goal' t"
  shows "inevitable step goal' s"
  using assms(1,2)
proof induction
  case (inevitable_now s)
  with assms(4) show ?case by (blast intro: inevitable.inevitable_now)
next
  case (inevitable_later s)
  show ?case
  proof (rule inevitable.inevitable_later)
    show "inevitable step goal' t" if "step s t" for t
      by (rule inevitable_later(3) [OF that assms(3) [OF that inevitable_later(4)]])
  qed (rule inevitable_later(1))
qed

text \<open>The contract of a terminating activity: a measure every step decreases, and progress.\<close>

locale progress_system =
  fixes step :: "'s \<Rightarrow> 's \<Rightarrow> bool" and inv :: "'s \<Rightarrow> bool" and work :: "'s \<Rightarrow> nat" and goal :: "'s \<Rightarrow> bool"
  assumes keeps: "step s t \<Longrightarrow> inv s \<Longrightarrow> inv t"
    and decreases: "step s t \<Longrightarrow> inv s \<Longrightarrow> work t < work s"
    and progress: "inv s \<Longrightarrow> \<not> goal s \<Longrightarrow> \<exists>t. step s t"
begin

lemma reaches_goal: "inv s \<Longrightarrow> inevitable step goal s"
proof (induction "work s" arbitrary: s rule: less_induct)
  case less
  show ?case
  proof (cases "goal s")
    case False
    show ?thesis
    proof (rule inevitable_later)
      show "\<exists>t. step s t" using less.prems False by (rule progress)
      show "inevitable step goal t" if "step s t" for t
        using less.hyps [OF decreases [OF that less.prems] keeps [OF that less.prems]] by simp
    qed
  qed (rule inevitable_now)
qed

end

end
