(* ===== verification/Contracts.thy ===== *)
theory Contracts
  imports Prelude
begin

text \<open>
  The interfaces between the components, as locales: what a client calls (\<open>fixes\<close>), the
  laws it relies on (\<open>assumes\<close>) and what follows for the client. Each is interpreted on the
  model's own definitions in the theory of the component that provides it.
\<close>

section \<open>Byte layers: compression, encryption, and their composition\<close>

text \<open>
  A layer transforms a byte string into another (\<open>put\<close>, with the old value of the output
  parameter as second argument) and back (\<open>get\<close>); \<open>ok\<close> says on which inputs it works.
\<close>

locale byte_layer =
  fixes put :: "bytes \<Rightarrow> bytes \<Rightarrow> fault + bool \<times> bytes"
    and get :: "bytes \<Rightarrow> bytes \<Rightarrow> fault + bool \<times> bytes"
    and ok :: "bytes \<Rightarrow> bool"
  assumes put_get:
    "ok d \<Longrightarrow> \<exists>c. c \<noteq> [] \<and> (\<forall>out. put d out = Inr (True, c)) \<and> (\<forall>out. get c out = Inr (True, d))"
begin

lemma put_injective:
  assumes "ok d" and "ok d'" and "put d out = put d' out"
  shows "d = d'"
proof -
  obtain c where "put d out = Inr (True, c)" "get c out = Inr (True, d)"
    using put_get [OF assms(1)] by auto
  moreover obtain c' where "put d' out = Inr (True, c')" "get c' out = Inr (True, d')"
    using put_get [OF assms(2)] by auto
  ultimately show ?thesis using assms(3) by simp
qed

end

locale byte_layers =
  inner: byte_layer put1 get1 ok1 + outer: byte_layer put2 get2 ok2
  for put1 get1 ok1 put2 get2 ok2 +
  assumes ok_outer: "ok1 d \<Longrightarrow> put1 d out = Inr (True, c) \<Longrightarrow> ok2 c"
begin

lemma layers_roundtrip:
  assumes "ok1 d"
  shows "\<exists>c e. (\<forall>out. put1 d out = Inr (True, c)) \<and> (\<forall>out. put2 c out = Inr (True, e)) \<and>
               (\<forall>out. get2 e out = Inr (True, c)) \<and> (\<forall>out. get1 c out = Inr (True, d))"
proof -
  obtain c where c: "\<forall>out. put1 d out = Inr (True, c)" "\<forall>out. get1 c out = Inr (True, d)"
    using inner.put_get [OF assms] by auto
  then have "ok2 c" using ok_outer [OF assms, of "[]" c] by simp
  from outer.put_get [OF this] obtain e where
    "\<forall>out. put2 c out = Inr (True, e)" "\<forall>out. get2 e out = Inr (True, c)"
    by auto
  with c show ?thesis by (intro exI conjI) simp_all
qed

end

section \<open>Message codecs\<close>

text \<open>A message type with its serializer; \<open>valid\<close> bounds the sizes that fit the format.\<close>

locale message_codec =
  fixes ser :: "'m \<Rightarrow> bytes \<Rightarrow> bool \<times> bytes"
    and des :: "bytes \<Rightarrow> 'm \<Rightarrow> fault + bool \<times> 'm"
    and valid :: "'m \<Rightarrow> bool"
  assumes ser_des:
    "valid m \<Longrightarrow> \<exists>s. (\<forall>out. ser m out = (True, s)) \<and> (\<forall>old. des s old = Inr (True, m))"
begin

lemma ser_total: "valid m \<Longrightarrow> fst (ser m out)"
  using ser_des by fastforce

lemma ser_indep: "valid m \<Longrightarrow> ser m out = ser m out'"
  using ser_des by metis

lemma des_ser: "valid m \<Longrightarrow> des (snd (ser m out)) old = Inr (True, m)"
  using ser_des by (metis snd_conv)

lemma ser_inj: "valid m \<Longrightarrow> valid m' \<Longrightarrow> snd (ser m out) = snd (ser m' out') \<Longrightarrow> m = m'"
  by (metis des_ser prod.inject sum.inject(2))

end

section \<open>Incremental parsers\<close>

text \<open>
  What cutting frames out of a receive buffer must satisfy for the way TCP chops the stream
  not to matter: a decision once taken on a buffer is not changed by bytes that arrive later.
\<close>

datatype 'f cut = Need | Got 'f bytes | Bad

locale incremental_parser =
  fixes cutter :: "bytes \<Rightarrow> 'f cut"
  assumes got_append: "cutter b = Got f r \<Longrightarrow> cutter (b @ s) = Got f (r @ s)"
    and bad_append: "cutter b = Bad \<Longrightarrow> cutter (b @ s) = Bad"
    and got_shorter: "cutter b = Got f r \<Longrightarrow> length r < length b"

text \<open>
  Draining a buffer: all frames it holds, what is left, and whether the stream is dead.
  Every cut consumes at least one byte, so \<open>length b + 1\<close> rounds are enough; \<open>drain\<close> has
  that fuel as its first argument.
\<close>

fun drain_fuel :: "(bytes \<Rightarrow> 'f cut) \<Rightarrow> nat \<Rightarrow> bytes \<Rightarrow> 'f list \<times> bytes \<times> bool" where
  "drain_fuel cutter 0 b = ([], b, False)"
| "drain_fuel cutter (Suc n) b =
     (case cutter b of
        Need \<Rightarrow> ([], b, False)
      | Bad \<Rightarrow> ([], b, True)
      | Got f r \<Rightarrow> (case drain_fuel cutter n r of (fs, r', dead) \<Rightarrow> (f # fs, r', dead)))"

definition drain :: "(bytes \<Rightarrow> 'f cut) \<Rightarrow> bytes \<Rightarrow> 'f list \<times> bytes \<times> bool" where
  "drain cutter b = drain_fuel cutter (length b + 1) b"

text \<open>Receiving chunk after chunk: each is appended to what the last drain left over.\<close>

fun feed :: "(bytes \<Rightarrow> 'f cut) \<Rightarrow> bytes \<Rightarrow> bytes list \<Rightarrow> 'f list \<times> bytes \<times> bool" where
  "feed cutter b [] = drain cutter b"
| "feed cutter b (c # cs) =
     (case drain cutter b of (fs, r, dead) \<Rightarrow>
        if dead then (fs, r @ concat (c # cs), True)
        else (case feed cutter (r @ c) cs of (fs', r', dead') \<Rightarrow> (fs @ fs', r', dead')))"

context incremental_parser begin

lemma drain_fuel_enough:
  "length b < n \<Longrightarrow> length b < m \<Longrightarrow> drain_fuel cutter n b = drain_fuel cutter m b"
proof (induction n arbitrary: m b)
  case (Suc n)
  then obtain k where m: "m = Suc k" by (cases m) auto
  show ?case
  proof (cases "cutter b")
    case (Got f r)
    then have "length r < length b" by (rule got_shorter)
    with Suc.prems m have "drain_fuel cutter n r = drain_fuel cutter k r"
      by (intro Suc.IH) auto
    then show ?thesis by (simp add: m Got)
  qed (simp_all add: m)
qed simp

lemma drain_simps:
  "cutter b = Need \<Longrightarrow> drain cutter b = ([], b, False)"
  "cutter b = Bad \<Longrightarrow> drain cutter b = ([], b, True)"
  "cutter b = Got f r \<Longrightarrow>
     drain cutter b = (case drain cutter r of (fs, r', dead) \<Rightarrow> (f # fs, r', dead))"
proof -
  assume *: "cutter b = Got f r"
  then have "length r < length b" by (rule got_shorter)
  then have "drain_fuel cutter (length b) r = drain_fuel cutter (length r + 1) r"
    by (intro drain_fuel_enough) auto
  with * show "drain cutter b = (case drain cutter r of (fs, r', dead) \<Rightarrow> (f # fs, r', dead))"
    by (simp add: drain_def)
qed (simp_all add: drain_def)

lemma drain_append:
  "drain cutter (b @ s) =
     (case drain cutter b of (fs, r, dead) \<Rightarrow>
        if dead then (fs, r @ s, True)
        else (case drain cutter (r @ s) of (fs', r', dead') \<Rightarrow> (fs @ fs', r', dead')))"
proof (induction b rule: length_induct)
  case (1 b)
  show ?case
  proof (cases "cutter b")
    case Need
    then show ?thesis by (simp add: drain_simps split: prod.split)
  next
    case Bad
    then have "cutter (b @ s) = Bad" by (rule bad_append)
    with Bad show ?thesis by (simp add: drain_simps)
  next
    case (Got f r)
    then have "cutter (b @ s) = Got f (r @ s)" and "length r < length b"
      by (rule got_append, rule got_shorter)
    with 1 Got show ?thesis by (simp add: drain_simps split: prod.splits)
  qed
qed

lemma drain_rest:
  "drain cutter b = (fs, r, False) \<Longrightarrow> drain cutter r = ([], r, False) \<and> length r \<le> length b"
proof (induction b arbitrary: fs rule: length_induct)
  case (1 b)
  show ?case
  proof (cases "cutter b")
    case (Got f b')
    then have "length b' < length b" by (rule got_shorter)
    moreover from Got 1(2) obtain fs' where "drain cutter b' = (fs', r, False)"
      by (auto simp: drain_simps split: prod.splits)
    ultimately show ?thesis using 1(1) by fastforce
  qed (use 1(2) in \<open>auto simp: drain_simps\<close>)
qed

text \<open>However a byte stream is chopped, the same frames come out.\<close>

lemma feed_concat: "feed cutter b cs = drain cutter (b @ concat cs)"
proof (induction cs arbitrary: b)
  case (Cons c cs)
  show ?case
    by (simp add: Cons.IH drain_append [of b "c @ concat cs"] split: prod.split)
qed simp

lemma feed_chunking: "concat cs = concat ds \<Longrightarrow> feed cutter b cs = feed cutter b ds"
  by (simp add: feed_concat)

end

section \<open>Load balancing strategies\<close>

text \<open>A sequence of calls of \<open>select\<close>, and what they return.\<close>

fun picks :: "('s \<Rightarrow> bytes list \<Rightarrow> bytes \<times> 's) \<Rightarrow> 's \<Rightarrow> bytes list list \<Rightarrow> bytes list" where
  "picks select s [] = []"
| "picks select s (xs # xss) = (case select s xs of (x, s') \<Rightarrow> x # picks select s' xss)"

text \<open>The contract of \<open>LoadBalancer::select\<close>: state in, chosen address and new state out.\<close>

locale balancer =
  fixes select :: "'s \<Rightarrow> bytes list \<Rightarrow> bytes \<times> 's" and inv :: "'s \<Rightarrow> bool"
  assumes select_mem: "inv s \<Longrightarrow> xs \<noteq> [] \<Longrightarrow> fst (select s xs) \<in> set xs"
    and select_empty: "select s [] = ([], s)"
    and select_inv: "inv s \<Longrightarrow> inv (snd (select s xs))"
begin

lemma picks_mem: "inv s \<Longrightarrow> \<forall>xs\<in>set xss. xs \<noteq> [] \<Longrightarrow> list_all2 (\<lambda>p xs. p \<in> set xs) (picks select s xss) xss"
proof (induction xss arbitrary: s)
  case (Cons xs xss)
  with select_mem [of s xs] select_inv [of s xs] show ?case by (simp add: case_prod_unfold)
qed simp

end

text \<open>
  A strategy that goes around: \<open>pos s n\<close> is the index it takes next among \<open>n\<close> servers, and
  \<open>room s m\<close> says that its counter does not wrap in the next \<open>m\<close> calls.
\<close>

locale cyclic_balancer = balancer select inv
  for select :: "'s \<Rightarrow> bytes list \<Rightarrow> bytes \<times> 's" and inv +
  fixes pos :: "'s \<Rightarrow> nat \<Rightarrow> nat" and room :: "'s \<Rightarrow> nat \<Rightarrow> bool"
  assumes select_pos: "inv s \<Longrightarrow> xs \<noteq> [] \<Longrightarrow> fst (select s xs) = xs ! pos s (length xs)"
    and pos_less: "0 < n \<Longrightarrow> pos s n < n"
    and pos_next: "inv s \<Longrightarrow> xs \<noteq> [] \<Longrightarrow> room s (Suc m) \<Longrightarrow>
      pos (snd (select s xs)) (length xs) = Suc (pos s (length xs)) mod length xs"
    and room_next: "inv s \<Longrightarrow> xs \<noteq> [] \<Longrightarrow> room s (Suc m) \<Longrightarrow> room (snd (select s xs)) m"
begin

lemma picks_cycle:
  "inv s \<Longrightarrow> xs \<noteq> [] \<Longrightarrow> room s m \<Longrightarrow>
   picks select s (replicate m xs) = map (\<lambda>i. xs ! ((pos s (length xs) + i) mod length xs)) [0..<m]"
proof (induction m arbitrary: s)
  case (Suc m)
  let ?n = "length xs" and ?s = "snd (select s xs)"
  have "picks select ?s (replicate m xs) = map (\<lambda>i. xs ! ((pos ?s ?n + i) mod ?n)) [0..<m]"
    using Suc.IH [of ?s] select_inv room_next Suc.prems by blast
  also have "\<dots> = map (\<lambda>i. xs ! ((pos s ?n + Suc i) mod ?n)) [0..<m]"
    using pos_next [OF Suc.prems] by (simp add: mod_add_left_eq)
  finally have "picks select s (replicate (Suc m) xs)
      = xs ! pos s ?n # map (\<lambda>i. xs ! ((pos s ?n + Suc i) mod ?n)) [0..<m]"
    using select_pos Suc.prems by (simp add: case_prod_unfold)
  also have "\<dots> = map (\<lambda>i. xs ! ((pos s ?n + i) mod ?n)) [0..<Suc m]"
    unfolding upt_conv_Cons [OF zero_less_Suc] map_Suc_upt [symmetric]
    using pos_less [of ?n s] Suc.prems(2) by simp
  finally show ?case .
qed simp

text \<open>One call per server goes around once, starting where the strategy stands.\<close>

lemma picks_rotate:
  assumes "inv s" and "xs \<noteq> []" and "room s (length xs)"
  shows "picks select s (replicate (length xs) xs) = rotate (pos s (length xs)) xs"
  unfolding picks_cycle [OF assms]
  by (rule nth_equalityI) (simp_all add: nth_rotate)

end

section \<open>Keyed stores\<close>

text \<open>The contract of the lookup tables of the server: connections by descriptor, services by name.\<close>

locale keyed_store =
  fixes get :: "'s \<Rightarrow> 'k \<Rightarrow> 'v option" and put :: "'k \<Rightarrow> 'v \<Rightarrow> 's \<Rightarrow> 's" and del :: "'k \<Rightarrow> 's \<Rightarrow> 's"
    and keys :: "'s \<Rightarrow> 'k set"
  assumes get_put: "get (put k v s) k' = (if k' = k then Some v else get s k')"
    and get_del: "get (del k s) k' = (if k' = k then None else get s k')"
    and keys_get: "k \<in> keys s \<longleftrightarrow> get s k \<noteq> None"
begin

lemma keys_put: "keys (put k v s) = insert k (keys s)"
  by (rule set_eqI) (simp add: keys_get get_put)

lemma keys_del: "keys (del k s) = keys s - {k}"
  by (rule set_eqI) (simp add: keys_get get_del)

lemma finite_put: "finite (keys s) \<Longrightarrow> finite (keys (put k v s))"
  by (simp add: keys_put)

lemma card_put: "finite (keys s) \<Longrightarrow> get s k = None \<Longrightarrow> card (keys (put k v s)) = Suc (card (keys s))"
  by (simp add: keys_put keys_get)

lemma card_del: "finite (keys s) \<Longrightarrow> get s k \<noteq> None \<Longrightarrow> card (keys (del k s)) = card (keys s) - 1"
  by (simp add: keys_del keys_get)

end

end
