(* ===== verification/Rpc_Protocol.thy ===== *)
theory Rpc_Protocol
  imports Contracts
begin

text \<open>
  \<open>rpc_src/protocol/rpc_protocol.h\<close>, \<open>rpc_protocol.cpp\<close> and \<open>core/error_code.h\<close>: the binary
  format of RPC requests and responses and the error codes. A message object is a record, the
  base class \<open>RpcMessage\<close> being the record the two message records extend. \<open>Serialize\<close> takes
  the old content of its output parameter and returns the result flag with the new content;
  \<open>Deserialize\<close> takes the object it fills, so that the fields it has already overwritten when
  it fails are visible. \<open>mem\<close> is the length of the longest \<open>std::string\<close> the process can
  allocate: \<open>resize\<close> beyond it throws.
\<close>

section \<open>Error codes\<close>

datatype error_code =
  SUCCESS | SERVICE_NOT_FOUND | METHOD_NOT_FOUND | INVALID_REQUEST | INTERNAL_ERROR

fun error_code_value :: "error_code \<Rightarrow> u32" where
  "error_code_value SUCCESS = 0"
| "error_code_value SERVICE_NOT_FOUND = 3000"
| "error_code_value METHOD_NOT_FOUND = 3001"
| "error_code_value INVALID_REQUEST = 6000"
| "error_code_value INTERNAL_ERROR = 6002"

fun getErrorMessage :: "error_code \<Rightarrow> bytes" where
  "getErrorMessage SUCCESS = str ''Success''"
| "getErrorMessage SERVICE_NOT_FOUND = str ''Service not found''"
| "getErrorMessage METHOD_NOT_FOUND = str ''Method not found''"
| "getErrorMessage INVALID_REQUEST = str ''Invalid request''"
| "getErrorMessage INTERNAL_ERROR = str ''Internal error''"

section \<open>Messages\<close>

record rpc_header =
  magic_number :: u32
  message_length :: u32
  header_sequence_id :: u32

definition MAGIC :: u32 where
  "MAGIC = 0x12345678"

definition sizeof_header :: nat where
  "sizeof_header = 12"

record rpc_message =
  sequence_id :: u32

record rpc_request = rpc_message +
  service_name :: bytes
  method_name :: bytes
  payload :: bytes

record rpc_response = rpc_message +
  result_data :: bytes
  error_message :: bytes
  response_code :: u32

definition new_request :: rpc_request where
  "new_request = \<lparr>sequence_id = 0, service_name = [], method_name = [], payload = []\<rparr>"

definition new_response :: rpc_response where
  "new_response = \<lparr>sequence_id = 0, result_data = [], error_message = [], response_code = 0\<rparr>"

text \<open>The memory image of an \<open>RpcHeader\<close>: three \<open>uint32_t\<close> without padding.\<close>

definition header_bytes :: "rpc_header \<Rightarrow> bytes" where
  "header_bytes h = le32 (magic_number h) @ le32 (message_length h) @ le32 (header_sequence_id h)"

definition parse_header :: "bytes \<Rightarrow> rpc_header" where
  "parse_header s = \<lparr>magic_number = of_le32 (take 4 s),
                     message_length = of_le32 (take 4 (drop 4 s)),
                     header_sequence_id = of_le32 (take 4 (drop 8 s))\<rparr>"

lemma length_header_bytes [simp]: "length (header_bytes h) = 12"
  by (simp add: header_bytes_def)

lemma parse_header_bytes [simp]: "parse_header (header_bytes h @ s) = h"
  by (simp add: parse_header_def header_bytes_def)

lemma sizeof_header_simps [guard_simps]: "sizeof_header = 12"
  by (simp add: sizeof_header_def)

section \<open>Serialization\<close>

text \<open>
  One length-prefixed field, written at \<open>pos\<close>: the length goes through a \<open>uint32_t\<close>, and the
  second \<open>memcpy\<close> copies that many bytes.
\<close>

definition put_field :: "bytes \<Rightarrow> bytes \<times> nat \<Rightarrow> bytes \<times> nat" where
  "put_field s = (\<lambda>(out, pos).
     let len = (of_nat (length s) :: u32);
         out = memcpy_at pos (le32 len) out;
         pos = pos + 4;
         out = memcpy_at pos (take (unat len) s) out
     in (out, pos + unat len))"

definition RpcRequest_Serialize :: "nat \<Rightarrow> rpc_request \<Rightarrow> bytes \<Rightarrow> bool \<times> bytes" where
  "RpcRequest_Serialize mem r out =
     (let body_size = length (service_name r) + length (method_name r) + length (payload r) + 3 * 4
      in if mem < sizeof_header + body_size then (False, out)
         else let out = resize (sizeof_header + body_size) out;
                  header = \<lparr>magic_number = MAGIC, message_length = of_nat body_size,
                            header_sequence_id = sequence_id r\<rparr>;
                  out = memcpy_at 0 (header_bytes header) out;
                  (out, pos) = put_field (service_name r) (out, sizeof_header);
                  (out, pos) = put_field (method_name r) (out, pos);
                  (out, pos) = put_field (payload r) (out, pos)
              in (True, out))"

definition RpcResponse_Serialize :: "nat \<Rightarrow> rpc_response \<Rightarrow> bytes \<Rightarrow> bool \<times> bytes" where
  "RpcResponse_Serialize mem r out =
     (let body_size = length (result_data r) + length (error_message r) + 2 * 4 + 4 + 4
      in if mem < sizeof_header + body_size then (False, out)
         else let out = resize (sizeof_header + body_size) out;
                  header = \<lparr>magic_number = MAGIC, message_length = of_nat body_size,
                            header_sequence_id = sequence_id r\<rparr>;
                  out = memcpy_at 0 (header_bytes header) out;
                  (out, pos) = put_field (result_data r) (out, sizeof_header);
                  (out, pos) = put_field (error_message r) (out, pos);
                  out = memcpy_at pos (le32 (response_code r)) out;
                  pos = pos + 4;
                  out = memcpy_at pos (le32 (sequence_id r)) out
              in (True, out))"

section \<open>Deserialization\<close>

text \<open>
  \<open>RpcRequest::Deserialize\<close> checks that four bytes are left before it reads a length;
  \<open>None\<close> is its \<open>return false\<close>.
\<close>

definition get_field :: "bytes \<Rightarrow> nat \<Rightarrow> fault + (bytes \<times> nat) option" where
  "get_field s pos =
     (if pos + 4 > length s then Inr None
      else case load32 s pos of
             Inl e \<Rightarrow> Inl e
           | Inr len \<Rightarrow>
               let pos = pos + 4
               in if unat len > length s - pos then Inr None
                  else Inr (Some (substr s pos (unat len), pos + unat len)))"

definition RpcRequest_Deserialize :: "bytes \<Rightarrow> rpc_request \<Rightarrow> fault + bool \<times> rpc_request" where
  "RpcRequest_Deserialize s r =
     (if length s < sizeof_header then Inr (False, r)
      else let header = parse_header s in
        if magic_number header \<noteq> MAGIC then Inr (False, r)
        else case get_field s sizeof_header of
          Inl e \<Rightarrow> Inl e
        | Inr None \<Rightarrow> Inr (False, r)
        | Inr (Some (x, pos)) \<Rightarrow>
            let r = r\<lparr>service_name := x\<rparr> in
            (case get_field s pos of
               Inl e \<Rightarrow> Inl e
             | Inr None \<Rightarrow> Inr (False, r)
             | Inr (Some (y, pos)) \<Rightarrow>
                 let r = r\<lparr>method_name := y\<rparr> in
                 (case get_field s pos of
                    Inl e \<Rightarrow> Inl e
                  | Inr None \<Rightarrow> Inr (False, r)
                  | Inr (Some (z, pos)) \<Rightarrow>
                      Inr (True, r\<lparr>payload := z, sequence_id := header_sequence_id header\<rparr>))))"

text \<open>
  \<open>RpcResponse::Deserialize\<close> reads each length without asking whether the bytes are there:
  the read is undefined behaviour when they are not.
\<close>

definition get_field_unchecked :: "bytes \<Rightarrow> nat \<Rightarrow> fault + (bytes \<times> nat) option" where
  "get_field_unchecked s pos =
     (case load32 s pos of
        Inl e \<Rightarrow> Inl e
      | Inr len \<Rightarrow>
          let pos = pos + 4
          in if pos + unat len > length s then Inr None
             else Inr (Some (substr s pos (unat len), pos + unat len)))"

definition RpcResponse_Deserialize :: "bytes \<Rightarrow> rpc_response \<Rightarrow> fault + bool \<times> rpc_response" where
  "RpcResponse_Deserialize s r =
     (if length s < sizeof_header then Inr (False, r)
      else let header = parse_header s in
        if magic_number header \<noteq> MAGIC then Inr (False, r)
        else if length s \<noteq> sizeof_header + unat (message_length header) then Inr (False, r)
        else case get_field_unchecked s sizeof_header of
          Inl e \<Rightarrow> Inl e
        | Inr None \<Rightarrow> Inr (False, r)
        | Inr (Some (x, pos)) \<Rightarrow>
            let r = r\<lparr>result_data := x\<rparr> in
            (case get_field_unchecked s pos of
               Inl e \<Rightarrow> Inl e
             | Inr None \<Rightarrow> Inr (False, r)
             | Inr (Some (y, pos)) \<Rightarrow>
                 let r = r\<lparr>error_message := y\<rparr> in
                 (case load32 s pos of
                    Inl e \<Rightarrow> Inl e
                  | Inr code \<Rightarrow>
                      let r = r\<lparr>response_code := code\<rparr> in
                      (case load32 s (pos + 4) of
                         Inl e \<Rightarrow> Inl e
                       | Inr sid \<Rightarrow> Inr (True, r\<lparr>sequence_id := sid\<rparr>)))))"

section \<open>What the serializers write\<close>

text \<open>The image of one field: its length, then its bytes.\<close>

definition field :: "bytes \<Rightarrow> bytes" where
  "field s = le32 (of_nat (length s)) @ s"

lemma length_field [simp]: "length (field s) = 4 + length s"
  by (simp add: field_def)

text \<open>The part of the buffer already filled is \<open>p\<close>, and the write position is its end.\<close>

definition written :: "bytes \<Rightarrow> nat \<Rightarrow> bytes \<times> nat \<Rightarrow> bool" where
  "written p n st \<longleftrightarrow> snd st = length p \<and> take (length p) (fst st) = p \<and> length (fst st) = n"

lemma memcpy_at_written:
  "written p n (out, pos) \<Longrightarrow> length p + length s \<le> n \<Longrightarrow>
   written (p @ s) n (memcpy_at pos s out, pos + length s)"
  by (auto simp: written_def memcpy_at_def)

lemma put_field_written:
  assumes "written p n st" and "length s < 2 ^ 32" and "length p + 4 + length s \<le> n"
  shows "written (p @ field s) n (put_field s st)"
proof (cases st)
  case (Pair out pos)
  let ?len = "of_nat (length s) :: u32"
  have len: "unat ?len = length s" using assms(2) by (simp add: unat_of_nat_u32)
  have "written (p @ le32 ?len) n (memcpy_at pos (le32 ?len) out, pos + 4)"
    using memcpy_at_written [of p n out pos "le32 ?len"] assms Pair by simp
  then have "written ((p @ le32 ?len) @ s) n
      (memcpy_at (pos + 4) s (memcpy_at pos (le32 ?len) out), pos + 4 + length s)"
    by (rule memcpy_at_written) (use assms in simp)
  with len show ?thesis
    by (simp add: put_field_def Pair Let_def field_def)
qed

lemma written_full: "written p n (out, pos) \<Longrightarrow> length p = n \<Longrightarrow> out = p"
  by (auto simp: written_def)

lemma written_start: "length h \<le> n \<Longrightarrow> written h n (memcpy_at 0 h (resize n out), length h)"
  by (auto simp: written_def memcpy_at_def)

definition request_fits :: "nat \<Rightarrow> rpc_request \<Rightarrow> bool" where
  "request_fits mem r \<longleftrightarrow>
     length (service_name r) < 2 ^ 32 \<and> length (method_name r) < 2 ^ 32 \<and>
     length (payload r) < 2 ^ 32 \<and>
     24 + length (service_name r) + length (method_name r) + length (payload r) \<le> mem"

definition response_fits :: "nat \<Rightarrow> rpc_response \<Rightarrow> bool" where
  "response_fits mem r \<longleftrightarrow>
     16 + length (result_data r) + length (error_message r) < 2 ^ 32 \<and>
     28 + length (result_data r) + length (error_message r) \<le> mem"

definition request_image :: "rpc_request \<Rightarrow> bytes" where
  "request_image r =
     header_bytes \<lparr>magic_number = MAGIC,
       message_length = of_nat (12 + length (service_name r) + length (method_name r) + length (payload r)),
       header_sequence_id = sequence_id r\<rparr>
     @ field (service_name r) @ field (method_name r) @ field (payload r)"

definition response_image :: "rpc_response \<Rightarrow> bytes" where
  "response_image r =
     header_bytes \<lparr>magic_number = MAGIC,
       message_length = of_nat (16 + length (result_data r) + length (error_message r)),
       header_sequence_id = sequence_id r\<rparr>
     @ field (result_data r) @ field (error_message r)
     @ le32 (response_code r) @ le32 (sequence_id r)"

lemma RpcRequest_Serialize_eq:
  assumes "request_fits mem r"
  shows "RpcRequest_Serialize mem r out = (True, request_image r)"
proof -
  let ?body = "length (service_name r) + length (method_name r) + length (payload r) + 3 * 4"
  let ?h = "header_bytes \<lparr>magic_number = MAGIC, message_length = of_nat ?body,
                            header_sequence_id = sequence_id r\<rparr>"
  let ?o1 = "memcpy_at 0 ?h (resize (12 + ?body) out)"
  have fits: "\<not> mem < 12 + ?body" "length (service_name r) < 2 ^ 32"
    "length (method_name r) < 2 ^ 32" "length (payload r) < 2 ^ 32"
    using assms by (auto simp: request_fits_def)
  have "written ?h (12 + ?body) (?o1, 12)"
    using written_start [of ?h "12 + ?body" out] by simp
  then have "written (((?h @ field (service_name r)) @ field (method_name r)) @ field (payload r))
      (12 + ?body) (put_field (payload r) (put_field (method_name r)
        (put_field (service_name r) (?o1, 12))))"
    by (intro put_field_written) (use fits in auto)
  moreover have "length (((?h @ field (service_name r)) @ field (method_name r)) @ field (payload r))
      = 12 + ?body"
    by simp
  ultimately have "fst (put_field (payload r) (put_field (method_name r)
        (put_field (service_name r) (?o1, 12)))) = request_image r"
    by (cases "put_field (payload r) (put_field (method_name r)
        (put_field (service_name r) (?o1, 12)))")
      (auto dest!: written_full simp: request_image_def add_ac)
  with fits show ?thesis
    by (simp add: RpcRequest_Serialize_def Let_def guard_simps case_prod_unfold)
qed

lemma RpcResponse_Serialize_eq:
  assumes "response_fits mem r"
  shows "RpcResponse_Serialize mem r out = (True, response_image r)"
proof -
  let ?body = "length (result_data r) + length (error_message r) + 2 * 4 + 4 + 4"
  let ?h = "header_bytes \<lparr>magic_number = MAGIC, message_length = of_nat ?body,
                            header_sequence_id = sequence_id r\<rparr>"
  let ?o1 = "memcpy_at 0 ?h (resize (12 + ?body) out)"
  have fits: "\<not> mem < 12 + ?body" "length (result_data r) < 2 ^ 32"
    "length (error_message r) < 2 ^ 32"
    using assms by (auto simp: response_fits_def)
  have "written ?h (12 + ?body) (?o1, 12)"
    using written_start [of ?h "12 + ?body" out] by simp
  then have "written ((?h @ field (result_data r)) @ field (error_message r))
      (12 + ?body) (put_field (error_message r) (put_field (result_data r) (?o1, 12)))"
    by (intro put_field_written) (use fits in auto)
  then obtain o2 pos where o2: "put_field (error_message r) (put_field (result_data r) (?o1, 12))
      = (o2, pos)" and w: "written ((?h @ field (result_data r)) @ field (error_message r))
      (12 + ?body) (o2, pos)"
    by (metis surj_pair)
  have "written (((?h @ field (result_data r)) @ field (error_message r)) @ le32 (response_code r))
      (12 + ?body) (memcpy_at pos (le32 (response_code r)) o2, pos + 4)"
    using memcpy_at_written [OF w, of "le32 (response_code r)"] by simp
  from memcpy_at_written [OF this, of "le32 (sequence_id r)"]
  have "memcpy_at (pos + 4) (le32 (sequence_id r)) (memcpy_at pos (le32 (response_code r)) o2)
      = response_image r"
    by (auto dest!: written_full simp: response_image_def add_ac)
  with fits o2 show ?thesis
    by (simp add: RpcResponse_Serialize_def Let_def guard_simps case_prod_unfold)
qed

section \<open>What the deserializers accept\<close>

text \<open>\<open>get_field\<close> never reads outside its input, and succeeds exactly on a field image.\<close>

lemma get_field_safe: "\<exists>v. get_field s pos = Inr v"
  by (auto simp: get_field_def load32_def Let_def)

lemma get_field_at:
  assumes "drop pos s = field x @ rest" and "length x < 2 ^ 32" and "pos \<le> length s"
  shows "get_field s pos = Inr (Some (x, pos + 4 + length x))"
proof -
  have s: "s = take pos s @ le32 (of_nat (length x)) @ x @ rest"
    using assms(1) by (metis append_take_drop_id append_assoc field_def)
  have l: "length (take pos s) = pos" using assms(3) by simp
  then have ld: "load32 s pos = Inr (of_nat (length x))"
    using load32_next s by metis
  have "length s = pos + 4 + length x + length rest"
    using s l by (metis add.assoc length_append length_le32)
  moreover have "substr s (pos + 4) (length x) = x"
    using assms(1) by (simp add: substr_def field_def drop_plus del: drop_drop)
  ultimately show ?thesis
    using assms(2) by (simp add: get_field_def ld Let_def byte_simps)
qed

lemma get_field_SomeD:
  assumes "get_field s pos = Inr (Some (x, pos'))"
  shows "drop pos s = field x @ drop pos' s \<and> pos' \<le> length s \<and> pos \<le> pos' \<and> length x < 2 ^ 32"
proof -
  have le: "pos + 4 \<le> length s" using assms by (auto simp: get_field_def split: if_splits)
  define len where "len = (of_le32 (take 4 (drop pos s)) :: u32)"
  from assms le have x: "x = substr s (pos + 4) (unat len)" "pos' = pos + 4 + unat len"
    "unat len \<le> length s - (pos + 4)"
    by (auto simp: get_field_def load32_in len_def Let_def split: if_splits)
  have lx: "length x = unat len" using x by simp
  have "take 4 (drop pos s) = le32 len"
    using le by (simp add: len_def le32_of_le32)
  moreover have "drop (pos + 4) s = x @ drop pos' s"
    using x take_drop_split [of "pos + 4" s "unat len"] by (simp add: substr_def)
  ultimately have "drop pos s = field x @ drop pos' s"
    using lx take_drop_split [of pos s 4] by (simp add: field_def)
  moreover have "length x < 2 ^ 32"
    using lx unsigned_less [of len] by simp
  ultimately show ?thesis using x le by auto
qed


lemma RpcRequest_Deserialize_image:
  assumes "length (service_name r) < 2 ^ 32" "length (method_name r) < 2 ^ 32"
    "length (payload r) < 2 ^ 32"
    and "magic_number h = MAGIC" "header_sequence_id h = sequence_id r"
  shows "RpcRequest_Deserialize
     (header_bytes h @ field (service_name r) @ field (method_name r) @ field (payload r) @ rest) old
     = Inr (True, r)"
proof -
  let ?s = "header_bytes h @ field (service_name r) @ field (method_name r) @ field (payload r) @ rest"
  let ?p1 = "12 + 4 + length (service_name r)"
  let ?p2 = "?p1 + 4 + length (method_name r)"
  have 1: "get_field ?s 12 = Inr (Some (service_name r, ?p1))"
    by (rule get_field_at) (use assms in auto)
  have 2: "get_field ?s ?p1 = Inr (Some (method_name r, ?p2))"
    by (rule get_field_at) (use assms in auto)
  have 3: "get_field ?s ?p2 = Inr (Some (payload r, ?p2 + 4 + length (payload r)))"
    by (rule get_field_at) (use assms in auto)
  have "\<not> length ?s < 12" by simp
  then show ?thesis
    using assms(4,5) 1 2 3
    by (simp add: RpcRequest_Deserialize_def Let_def guard_simps del: length_append)
qed

lemma RpcRequest_Deserialize_TrueD:
  assumes "RpcRequest_Deserialize s old = Inr (True, r)"
  shows "\<exists>h rest. s = header_bytes h @ field (service_name r) @ field (method_name r) @ field (payload r) @ rest
     \<and> magic_number h = MAGIC \<and> header_sequence_id h = sequence_id r
     \<and> length (service_name r) < 2 ^ 32 \<and> length (method_name r) < 2 ^ 32 \<and> length (payload r) < 2 ^ 32"
proof -
  have l: "12 \<le> length s" and m: "magic_number (parse_header s) = MAGIC"
    using assms by (auto simp: RpcRequest_Deserialize_def Let_def guard_simps split: if_splits)
  from assms l m obtain x y z p1 p2 p3 where
    g: "get_field s 12 = Inr (Some (x, p1))" "get_field s p1 = Inr (Some (y, p2))"
       "get_field s p2 = Inr (Some (z, p3))"
    and r: "service_name r = x" "method_name r = y" "payload r = z"
       "sequence_id r = header_sequence_id (parse_header s)"
    by (auto simp: RpcRequest_Deserialize_def Let_def guard_simps
        split: sum.splits option.splits prod.splits)
  have "take 12 s = header_bytes (parse_header s)"
  proof -
    have "take 12 s = take 4 s @ take 4 (drop 4 s) @ take 4 (drop 8 s)"
      using take_add [of 4 8 s] take_add [of 4 4 "drop 4 s"] by simp
    then show ?thesis
      using l by (simp add: header_bytes_def parse_header_def le32_of_le32)
  qed
  then have "s = header_bytes (parse_header s) @ drop 12 s"
    by (metis append_take_drop_id)
  also have "drop 12 s = field x @ field y @ field z @ drop p3 s"
    using get_field_SomeD [OF g(1)] get_field_SomeD [OF g(2)] get_field_SomeD [OF g(3)] by simp
  finally have eq: "s = header_bytes (parse_header s) @ field x @ field y @ field z @ drop p3 s" .
  have len: "length x < 2 ^ 32" "length y < 2 ^ 32" "length z < 2 ^ 32"
    using get_field_SomeD [OF g(1)] get_field_SomeD [OF g(2)] get_field_SomeD [OF g(3)] by auto
  show ?thesis
    unfolding r by (intro exI conjI, rule eq, rule m, rule refl) (rule len)+
qed

lemma get_field_unchecked_at:
  assumes "drop pos s = field x @ rest" and "length x < 2 ^ 32" and "pos \<le> length s"
  shows "get_field_unchecked s pos = Inr (Some (x, pos + 4 + length x))"
proof -
  have g: "get_field s pos = Inr (Some (x, pos + 4 + length x))"
    using assms by (rule get_field_at)
  show ?thesis
    using g by (auto simp: get_field_def get_field_unchecked_def Let_def split: if_splits sum.splits)
qed

lemma RpcResponse_Deserialize_image:
  assumes "response_fits mem r"
  shows "RpcResponse_Deserialize (response_image r) old = Inr (True, r)"
proof -
  let ?s = "response_image r"
  let ?p1 = "12 + 4 + length (result_data r)"
  let ?p2 = "?p1 + 4 + length (error_message r)"
  have fits: "length (result_data r) < 2 ^ 32" "length (error_message r) < 2 ^ 32"
    "16 + length (result_data r) + length (error_message r) < 2 ^ 32"
    using assms by (auto simp: response_fits_def)
  have 1: "get_field_unchecked ?s 12 = Inr (Some (result_data r, ?p1))"
    by (rule get_field_unchecked_at) (use fits in \<open>auto simp: response_image_def\<close>)
  have 2: "get_field_unchecked ?s ?p1 = Inr (Some (error_message r, ?p2))"
    by (rule get_field_unchecked_at) (use fits in \<open>auto simp: response_image_def\<close>)
  have l: "length ?s = ?p2 + 8" by (simp add: response_image_def)
  have dr: "drop ?p2 ?s = le32 (response_code r) @ le32 (sequence_id r)"
    by (simp add: response_image_def)
  have 3: "load32 ?s ?p2 = Inr (response_code r)"
    using l dr by (simp add: load32_in)
  have "drop (?p2 + 4) ?s = le32 (sequence_id r)"
    unfolding drop_plus [of ?p2 4] dr by simp
  then have 4: "load32 ?s (?p2 + 4) = Inr (sequence_id r)"
    using l by (simp add: load32_in)
  have h: "parse_header ?s = \<lparr>magic_number = MAGIC,
       message_length = of_nat (16 + length (result_data r) + length (error_message r)),
       header_sequence_id = sequence_id r\<rparr>"
    by (simp add: response_image_def)
  have "unat (of_nat (16 + length (result_data r) + length (error_message r)) :: u32)
      = 16 + length (result_data r) + length (error_message r)"
    using fits(3) by (rule unat_of_nat_u32)
  then show ?thesis
    using l 1 2 3 4
    by (simp add: RpcResponse_Deserialize_def Let_def guard_simps h)
qed

interpretation request_codec: message_codec "RpcRequest_Serialize mem" RpcRequest_Deserialize "request_fits mem"
  for mem
proof
  fix m assume "request_fits mem m"
  then show "\<exists>s. (\<forall>out. RpcRequest_Serialize mem m out = (True, s)) \<and>
      (\<forall>old. RpcRequest_Deserialize s old = Inr (True, m))"
    using RpcRequest_Deserialize_image [where rest = "[]" and r = m]
    by (auto simp: RpcRequest_Serialize_eq request_image_def request_fits_def)
qed

interpretation response_codec: message_codec "RpcResponse_Serialize mem" RpcResponse_Deserialize "response_fits mem"
  for mem
  by unfold_locales (auto simp: RpcResponse_Serialize_eq RpcResponse_Deserialize_image)


section \<open>Properties\<close>

text \<open>
  C23. Round trip of requests: a request whose fields fit the format is serialized successfully
  whatever the output buffer held, and deserializing the bytes into any request object gives
  the request back, sequence id included.
\<close>

theorem request_roundtrip:
  "request_fits mem r \<Longrightarrow>
   \<exists>s. RpcRequest_Serialize mem r out = (True, s) \<and> RpcRequest_Deserialize s old = Inr (True, r)"
  using request_codec.ser_des by blast

theorem request_roundtrip_witness:
  "\<exists>s. RpcRequest_Serialize 100 \<lparr>sequence_id = 7, service_name = str ''RpcService'',
         method_name = str ''Echo'', payload = str ''{}''\<rparr> [1, 2, 3] = (True, s)
       \<and> RpcRequest_Deserialize s new_request = Inr (True, \<lparr>sequence_id = 7,
           service_name = str ''RpcService'', method_name = str ''Echo'', payload = str ''{}''\<rparr>)"
  by (rule request_roundtrip) (simp add: request_fits_def)

text \<open>
  C24. What the request parser accepts, exactly: a header with the magic number, three
  length-prefixed fields, and any trailing bytes; the header's \<open>message_length\<close> is not looked at.
\<close>

theorem request_accepts_iff:
  "RpcRequest_Deserialize s old = Inr (True, r) \<longleftrightarrow>
     (\<exists>ml rest. s = le32 MAGIC @ le32 ml @ le32 (sequence_id r) @ field (service_name r)
                   @ field (method_name r) @ field (payload r) @ rest
        \<and> length (service_name r) < 2 ^ 32 \<and> length (method_name r) < 2 ^ 32
        \<and> length (payload r) < 2 ^ 32)" (is "?L = ?R")
proof
  assume ?L
  then show ?R
    by (auto dest!: RpcRequest_Deserialize_TrueD simp: header_bytes_def)
next
  assume ?R
  then obtain ml rest where s: "s = header_bytes \<lparr>magic_number = MAGIC, message_length = ml,
        header_sequence_id = sequence_id r\<rparr>
      @ field (service_name r) @ field (method_name r) @ field (payload r) @ rest"
    and "length (service_name r) < 2 ^ 32" "length (method_name r) < 2 ^ 32"
    "length (payload r) < 2 ^ 32"
    by (auto simp: header_bytes_def)
  then show ?L
    by (auto intro: RpcRequest_Deserialize_image)
qed

text \<open>
  Parsing a request is safe on every input: no read outside the input, no exception, and a
  rejected input leaves the payload and the sequence id of the object untouched (the names may
  already have been overwritten).
\<close>

theorem request_deserialize_safe:
  "\<exists>b r. RpcRequest_Deserialize s old = Inr (b, r) \<and>
         (b \<or> (payload r = payload old \<and> sequence_id r = sequence_id old))"
proof -
  obtain v1 where v1: "get_field s sizeof_header = Inr v1" using get_field_safe by blast
  have "\<exists>v. get_field s p = Inr v" for p by (rule get_field_safe)
  then show ?thesis
    by (auto simp: RpcRequest_Deserialize_def Let_def v1 split: sum.split option.split)
       (metis Inl_Inr_False)+
qed

text \<open>
  Round trip of responses, sequence id and error code included, for result and message
  that together fit a 32-bit message length.
\<close>

theorem response_roundtrip:
  "response_fits mem r \<Longrightarrow>
   \<exists>s. RpcResponse_Serialize mem r out = (True, s) \<and> RpcResponse_Deserialize s old = Inr (True, r)"
  using response_codec.ser_des by blast

theorem response_roundtrip_witness:
  "\<exists>s. RpcResponse_Serialize 100 \<lparr>sequence_id = 7, result_data = str ''pong'',
         error_message = str ''Success'', response_code = 0\<rparr> [] = (True, s)
       \<and> RpcResponse_Deserialize s new_response = Inr (True, \<lparr>sequence_id = 7,
           result_data = str ''pong'', error_message = str ''Success'', response_code = 0\<rparr>)"
  by (rule response_roundtrip) (simp add: response_fits_def)

text \<open>
  A response that ends within the error code or the sequence id makes
  \<open>RpcResponse::Deserialize\<close> read outside its input: the header check only compares the
  declared with the real length, and nothing guards the last two reads.
\<close>

theorem response_truncated_bad_access:
  assumes "length x < 2 ^ 32" and "length y < 2 ^ 32" and "length t < 7"
    and "8 + length x + length y + length t < 2 ^ 32"
  shows "RpcResponse_Deserialize
     (header_bytes \<lparr>magic_number = MAGIC,
         message_length = of_nat (8 + length x + length y + length t), header_sequence_id = i\<rparr>
      @ field x @ field y @ t) old = Inl Bad_access"
proof -
  let ?h = "\<lparr>magic_number = MAGIC,
         message_length = of_nat (8 + length x + length y + length t), header_sequence_id = i\<rparr>"
  let ?s = "header_bytes ?h @ field x @ field y @ t"
  let ?p1 = "12 + 4 + length x"
  let ?p2 = "?p1 + 4 + length y"
  have 1: "get_field_unchecked ?s 12 = Inr (Some (x, ?p1))"
    by (rule get_field_unchecked_at) (use assms in auto)
  have 2: "get_field_unchecked ?s ?p1 = Inr (Some (y, ?p2))"
    by (rule get_field_unchecked_at) (use assms in auto)
  have l: "length ?s = ?p2 + length t" by simp
  have 4: "load32 ?s (?p2 + 4) = Inl Bad_access"
    by (rule load32_oob) (use l assms(3) in linarith)
  have 3: "load32 ?s ?p2 = Inl Bad_access \<or> (\<exists>c. load32 ?s ?p2 = Inr c)"
    by (simp add: load32_def)
  have "unat (message_length ?h) = 8 + length x + length y + length t"
    using unat_of_nat_u32 [OF assms(4)] by simp
  then show ?thesis
    using 1 2 3 4
    by (auto simp: RpcResponse_Deserialize_def Let_def guard_simps)
qed

theorem response_truncated_bad_access_witness:
  "RpcResponse_Deserialize
     (header_bytes \<lparr>magic_number = MAGIC, message_length = 8, header_sequence_id = 1\<rparr>
      @ field [] @ field [] @ []) new_response = Inl Bad_access"
  using response_truncated_bad_access [of "[]" "[]" "[]" 1 new_response] by simp

end
