(* ===== verification/Aes_Encrypt.thy ===== *)
theory Aes_Encrypt
  imports Contracts "HOL-Library.Signed_Division"
begin

text \<open>
  \<open>rpc_src/encrypt/aes_encrypt.h\<close> and \<open>aes_encrypt.cpp\<close>: Base64, the position-dependent
  shift cipher and the two-key encryption built from them. The random generator's draws
  (\<open>dis(gen)\<close>) are a parameter, a function from the index of the draw; each draw is an \<open>int\<close>.
  An output parameter's old value is an argument, and its new value part of the result.
\<close>

section \<open>Random bytes and debugging output\<close>

definition GenerateRandomBytes :: "(nat \<Rightarrow> int) \<Rightarrow> nat \<Rightarrow> bytes" where
  "GenerateRandomBytes dis n = map (\<lambda>i. word_of_int (dis i)) [0..<n]"

text \<open>Two uppercase hexadecimal digits and a blank per byte, at most \<open>max_bytes\<close> of them.\<close>

definition hex_digit :: "nat \<Rightarrow> byte" where
  "hex_digit n = (if n < 10 then of_nat (48 + n) else of_nat (55 + n))"

definition BytesToHexString :: "bytes \<Rightarrow> nat \<Rightarrow> bytes" where
  "BytesToHexString data max_bytes =
     concat (map (\<lambda>b. [hex_digit (unat b div 16), hex_digit (unat b mod 16), 32])
               (take (min (length data) max_bytes) data))
     @ (if length data > max_bytes then str ''...'' else [])"

lemma length_BytesToHexString:
  "length (BytesToHexString data n) = 3 * min (length data) n + (if length data > n then 3 else 0)"
proof -
  have "length (concat (map (\<lambda>b. [f b, g b, c]) xs)) = 3 * length xs" for f g and c :: byte and xs :: bytes
    by (induction xs) auto
  then show ?thesis by (simp add: BytesToHexString_def)
qed

section \<open>Base64\<close>

definition BASE64_CHARS :: bytes where
  "BASE64_CHARS = str ''ABCDEFGHIJKLMNOPQRSTUVWXYZabcdefghijklmnopqrstuvwxyz0123456789+/''"

definition base64_char :: "byte \<Rightarrow> byte" where
  "base64_char v = BASE64_CHARS ! unat v"

text \<open>The four 6-bit values of a group of three bytes, as the C expressions have them.\<close>

definition sextets :: "byte \<Rightarrow> byte \<Rightarrow> byte \<Rightarrow> bytes" where
  "sextets a b c =
     [drop_bit 2 (a AND 0xfc),
      push_bit 4 (a AND 0x03) + drop_bit 4 (b AND 0xf0),
      push_bit 2 (b AND 0x0f) + drop_bit 6 (c AND 0xc0),
      c AND 0x3f]"

text \<open>
  The main loop takes one byte at a time; its state is the result so far and the filled part of
  \<open>char_array_3\<close>, whose length is the loop's \<open>i\<close>.
\<close>

definition encode_step :: "byte \<Rightarrow> bytes \<times> bytes \<Rightarrow> bytes \<times> bytes" where
  "encode_step x = (\<lambda>(ret, buf).
     let buf = buf @ [x] in
     if length buf = 3
     then (ret @ map base64_char (sextets (buf ! 0) (buf ! 1) (buf ! 2)), [])
     else (ret, buf))"

definition encode_rest :: "bytes \<Rightarrow> bytes" where
  "encode_rest buf =
     (let i = length buf in
      if i = 0 then []
      else let buf = buf @ replicate (3 - i) 0 in
        map base64_char (take (i + 1) (sextets (buf ! 0) (buf ! 1) (buf ! 2)))
        @ replicate (3 - i) 61)"

definition Base64Encode :: "bytes \<Rightarrow> bytes" where
  "Base64Encode input =
     (case fold encode_step input ([], []) of (ret, buf) \<Rightarrow> ret @ encode_rest buf)"

text \<open>The table \<open>base64_map\<close>: 256 entries, \<open>-1\<close> where no character of the alphabet is.\<close>

definition base64_map :: "int list" where
  "base64_map = fold (\<lambda>i m. m[unat (BASE64_CHARS ! i) := int i]) [0..<length BASE64_CHARS]
                  (replicate 256 (-1))"

text \<open>An entry goes through \<open>unsigned char\<close>, so a character outside the alphabet reads as 255.\<close>

definition base64_value :: "byte \<Rightarrow> byte" where
  "base64_value c = word_of_int (base64_map ! unat c)"

definition octets :: "byte \<Rightarrow> byte \<Rightarrow> byte \<Rightarrow> byte \<Rightarrow> bytes" where
  "octets a b c d =
     [push_bit 2 a + drop_bit 4 (b AND 0x30),
      push_bit 4 (b AND 0xf) + drop_bit 2 (c AND 0x3c),
      push_bit 6 (c AND 0x3) + d]"

fun decode_loop :: "bytes \<Rightarrow> bytes \<Rightarrow> bytes \<Rightarrow> bytes \<times> bytes" where
  "decode_loop ret buf [] = (ret, buf)"
| "decode_loop ret buf (x # xs) =
     (if x = 61 then (ret, buf)
      else let buf = buf @ [x] in
        if length buf = 4
        then (let v = map base64_value buf in
              decode_loop (ret @ octets (v ! 0) (v ! 1) (v ! 2) (v ! 3)) [] xs)
        else decode_loop ret buf xs)"

definition decode_rest :: "bytes \<Rightarrow> bytes" where
  "decode_rest buf =
     (let i = length buf in
      if i = 0 then []
      else let v = map base64_value (buf @ replicate (4 - i) 0) in
        take (i - 1) (octets (v ! 0) (v ! 1) (v ! 2) (v ! 3)))"

definition Base64Decode :: "bytes \<Rightarrow> bytes" where
  "Base64Decode input =
     (case decode_loop [] [] input of (ret, buf) \<Rightarrow> ret @ decode_rest buf)"

section \<open>The shift cipher\<close>

text \<open>
  The operands are promoted to \<open>int\<close>, \<open>%\<close> truncates towards zero (\<open>smod\<close>), and the result is
  narrowed to a byte. An empty key with a nonempty input divides by zero.
\<close>

fun shift_encrypt_loop :: "bytes \<Rightarrow> nat \<Rightarrow> bytes \<Rightarrow> bytes" where
  "shift_encrypt_loop key i [] = []"
| "shift_encrypt_loop key i (c # cs) =
     (let k = key ! (i mod length key); shift = (of_nat (i mod 256) :: byte)
      in word_of_int ((uint c + uint k + uint shift) smod 256) # shift_encrypt_loop key (Suc i) cs)"

definition ShiftEncrypt :: "bytes \<Rightarrow> bytes \<Rightarrow> fault + bytes" where
  "ShiftEncrypt input key =
     (if input \<noteq> [] \<and> key = [] then Inl Division_by_zero
      else Inr (shift_encrypt_loop key 0 input))"

fun shift_decrypt_loop :: "bytes \<Rightarrow> nat \<Rightarrow> bytes \<Rightarrow> bytes" where
  "shift_decrypt_loop key i [] = []"
| "shift_decrypt_loop key i (c # cs) =
     (let k = key ! (i mod length key); shift = (of_nat (i mod 256) :: byte)
      in word_of_int ((uint c - uint k - uint shift + 512) smod 256)
         # shift_decrypt_loop key (Suc i) cs)"

definition ShiftDecrypt :: "bytes \<Rightarrow> bytes \<Rightarrow> fault + bytes" where
  "ShiftDecrypt input key =
     (if input \<noteq> [] \<and> key = [] then Inl Division_by_zero
      else Inr (shift_decrypt_loop key 0 input))"

section \<open>Encryption with a session key\<close>

definition KEY_LENGTH :: nat where
  "KEY_LENGTH = 32"

definition master_key :: bytes where
  "master_key = str ''MyRPC_Secret_Key_2026_Production!@#$%^&*''"

definition Encrypt :: "(nat \<Rightarrow> int) \<Rightarrow> bytes \<Rightarrow> bytes \<Rightarrow> fault + bool \<times> bytes" where
  "Encrypt dis data ciphertext =
     (if data = [] then Inr (False, ciphertext)
      else let session_key = GenerateRandomBytes dis KEY_LENGTH in
        case ShiftEncrypt data session_key of
          Inl e \<Rightarrow> Inl e
        | Inr encrypted \<Rightarrow>
            (case ShiftEncrypt session_key master_key of
               Inl e \<Rightarrow> Inl e
             | Inr encrypted_key \<Rightarrow> Inr (True, Base64Encode (encrypted_key @ encrypted))))"

definition Decrypt :: "bytes \<Rightarrow> bytes \<Rightarrow> fault + bool \<times> bytes" where
  "Decrypt encrypted_data plaintext =
     (let decoded = Base64Decode encrypted_data in
      if length decoded \<le> KEY_LENGTH then Inr (False, plaintext)
      else case ShiftDecrypt (substr decoded 0 KEY_LENGTH) master_key of
          Inl e \<Rightarrow> Inl e
        | Inr session_key \<Rightarrow>
            (case ShiftDecrypt (drop KEY_LENGTH decoded) session_key of
               Inl e \<Rightarrow> Inl e
             | Inr p \<Rightarrow> Inr (True, p)))"

section \<open>Base64: reference definitions and round trip\<close>

text \<open>The reference: the input cut into groups of three, as RFC 4648 describes it.\<close>

fun base64_spec :: "bytes \<Rightarrow> bytes" where
  "base64_spec (a # b # c # r) = map base64_char (sextets a b c) @ base64_spec r"
| "base64_spec [a, b] = map base64_char (take 3 (sextets a b 0)) @ [61]"
| "base64_spec [a] = map base64_char (take 2 (sextets a 0 0)) @ [61, 61]"
| "base64_spec [] = []"

lemma length_sextets [simp]: "length (sextets a b c) = 4"
  by (simp add: sextets_def)

lemma length_octets [simp]: "length (octets a b c d) = 3"
  by (simp add: octets_def)

lemma encode_fold: "(case fold encode_step xs (ret, []) of (r, buf) \<Rightarrow> r @ encode_rest buf) = ret @ base64_spec xs"
  by (induction xs arbitrary: ret rule: base64_spec.induct)
     (simp_all add: encode_step_def encode_rest_def numeral_eq_Suc)

lemma Base64Encode_eq: "Base64Encode xs = base64_spec xs"
  by (simp add: Base64Encode_def encode_fold [of _ "[]", simplified])


text \<open>The alphabet: 64 distinct characters, none of them the padding character.\<close>

lemma length_alphabet: "length BASE64_CHARS = 64"
  by (simp add: BASE64_CHARS_def)

lemma alphabet_distinct: "distinct BASE64_CHARS" and alphabet_padding: "61 \<notin> set BASE64_CHARS"
  by (simp_all add: BASE64_CHARS_def str_def)

lemma fold_table:
  assumes "distinct ks" and "\<forall>k\<in>set ks. unat k < length m" and "n \<le> length ks" and "i < n"
  shows "fold (\<lambda>i m. m[unat (ks ! i) := int i]) [0..<n] m ! unat ((ks :: bytes) ! i) = int i"
  using assms(3,4)
proof (induction n)
  case (Suc n)
  have len: "length (fold (\<lambda>i m. m[unat (ks ! i) := int i]) is m) = length m" for "is" and m :: "int list"
    by (induction "is" arbitrary: m) auto
  show ?case
  proof (cases "i = n")
    case True
    with Suc.prems assms(2) show ?thesis by (simp add: len)
  next
    case False
    with Suc.prems assms(1) have "unat (ks ! n) \<noteq> unat (ks ! i)"
      by (simp add: nth_eq_iff_index_eq flip: word_unat_eq_iff)
    with False Suc show ?thesis by simp
  qed
qed simp

lemma base64_char_inverse:
  assumes "v < 64"
  shows "base64_value (base64_char v) = v" and "base64_char v \<noteq> 61"
proof -
  have "unat v < 64" using assms by (simp add: word_less_nat_alt)
  moreover have "\<forall>k\<in>set BASE64_CHARS. unat k < length (replicate 256 (-1 :: int))"
    by (simp add: unat_byte_bound)
  ultimately have "base64_map ! unat (BASE64_CHARS ! unat v) = int (unat v)"
    unfolding base64_map_def using alphabet_distinct by (intro fold_table) (simp_all add: length_alphabet)
  moreover have "BASE64_CHARS ! unat v \<noteq> 61"
    using alphabet_padding \<open>unat v < 64\<close> length_alphabet nth_mem by metis
  ultimately show "base64_value (base64_char v) = v" and "base64_char v \<noteq> 61"
    by (simp_all add: base64_char_def base64_value_def)
qed

lemma disjoint_plus: "a AND b = 0 \<Longrightarrow> a + b = a OR (b :: byte)"
  using word_plus_and_or [of a b] by simp

text \<open>Equality of bytes, bit by bit.\<close>

lemma byte_eqI:
  assumes "bit a 0 = bit b 0" "bit a 1 = bit b 1" "bit a 2 = bit b 2" "bit a 3 = bit b 3"
    "bit a 4 = bit b 4" "bit a 5 = bit b 5" "bit a 6 = bit b 6" "bit a 7 = bit (b :: byte) 7"
  shows "a = b"
proof (rule bit_word_eqI)
  fix n :: nat
  assume "n < LENGTH(8)"
  then have "n \<in> {0, 1, 2, 3, 4, 5, 6, 7}" by auto
  with assms show "bit a n = bit b n" by auto
qed

text \<open>The additions of the C code put disjoint bit groups together.\<close>

lemma sextets_or: "sextets a b c =
     [drop_bit 2 (a AND 0xfc),
      push_bit 4 (a AND 0x03) OR drop_bit 4 (b AND 0xf0),
      push_bit 2 (b AND 0x0f) OR drop_bit 6 (c AND 0xc0),
      c AND 0x3f]"
proof -
  have "push_bit 4 (a AND 0x03) AND drop_bit 4 (b AND 0xf0) = 0"
    by (rule byte_eqI) (auto simp: bit_simps)
  moreover have "push_bit 2 (b AND 0x0f) AND drop_bit 6 (c AND 0xc0) = 0"
    by (rule byte_eqI) (auto simp: bit_simps)
  ultimately show ?thesis by (simp add: sextets_def disjoint_plus)
qed


lemma octets_or: "octets a b c d =
     [push_bit 2 a + drop_bit 4 (b AND 0x30),
      push_bit 4 (b AND 0xf) OR drop_bit 2 (c AND 0x3c),
      push_bit 6 (c AND 0x3) + d]"
proof -
  have "push_bit 4 (b AND 0xf) AND drop_bit 2 (c AND 0x3c) = 0"
    by (rule byte_eqI) (auto simp: bit_simps)
  then show ?thesis by (simp add: octets_def disjoint_plus)
qed

text \<open>Four sextets carry the three bytes they were made of.\<close>

lemma octets_sextets:
  "octets (sextets a b c ! 0) (sextets a b c ! 1) (sextets a b c ! 2) (sextets a b c ! 3) = [a, b, c]"
proof -
  let ?s0 = "drop_bit 2 (a AND 0xfc)"
  let ?s1 = "push_bit 4 (a AND 0x03) OR drop_bit 4 (b AND 0xf0)"
  let ?s2 = "push_bit 2 (b AND 0x0f) OR drop_bit 6 (c AND 0xc0)"
  let ?s3 = "c AND 0x3f"
  have "push_bit 2 ?s0 AND drop_bit 4 (?s1 AND 0x30) = 0"
    by (rule byte_eqI) (auto simp: bit_simps)
  moreover have "push_bit 2 ?s0 OR drop_bit 4 (?s1 AND 0x30) = a"
    by (rule byte_eqI) (auto simp: bit_simps)
  moreover have "push_bit 4 (?s1 AND 0xf) OR drop_bit 2 (?s2 AND 0x3c) = b"
    by (rule byte_eqI) (auto simp: bit_simps)
  moreover have "push_bit 6 (?s2 AND 0x3) AND ?s3 = 0"
    by (rule byte_eqI) (auto simp: bit_simps)
  moreover have "push_bit 6 (?s2 AND 0x3) OR ?s3 = c"
    by (rule byte_eqI) (auto simp: bit_simps)
  ultimately show ?thesis
    by (simp add: sextets_or octets_or disjoint_plus numeral_eq_Suc)
qed

lemma sextets_lt: "x \<in> set (sextets a b c) \<Longrightarrow> x < 64"
proof -
  have low: "v < 64" if "v AND 0x3f = v" for v :: byte
  proof -
    have "v AND 0x3f \<le> 0x3f" by (rule word_and_le1)
    with that show ?thesis by (simp add: word_le_nat_alt word_less_nat_alt)
  qed
  have "drop_bit 2 (a AND 0xfc) < 64"
    by (rule low, rule byte_eqI) (auto simp: bit_simps)
  moreover have "push_bit 4 (a AND 0x03) OR drop_bit 4 (b AND 0xf0) < 64"
    by (rule low, rule byte_eqI) (auto simp: bit_simps)
  moreover have "push_bit 2 (b AND 0x0f) OR drop_bit 6 (c AND 0xc0) < 64"
    by (rule low, rule byte_eqI) (auto simp: bit_simps)
  moreover have "c AND 0x3f < 64"
    by (rule low, rule byte_eqI) (auto simp: bit_simps)
  ultimately show "x \<in> set (sextets a b c) \<Longrightarrow> x < 64"
    unfolding sextets_or by (auto simp del: push_bit_and)
qed

text \<open>One group: four characters of the alphabet decode to three bytes.\<close>

lemma sextets_list:
  obtains p q r t where "sextets a b c = [p, q, r, t]" "p < 64" "q < 64" "r < 64" "t < 64"
proof -
  obtain p q r t where *: "sextets a b c = [p, q, r, t]"
    by (simp add: sextets_def)
  with sextets_lt [of _ a b c] show thesis by (auto intro: that [OF *])
qed

lemma decode_group:
  "decode_loop ret [] (map base64_char (sextets a b c) @ xs) = decode_loop (ret @ [a, b, c]) [] xs"
  using octets_sextets [of a b c]
  by (rule_tac sextets_list [of a b c]) (simp add: base64_char_inverse Let_def)

lemma decode_spec:
  "(case decode_loop ret [] (base64_spec xs) of (r, buf) \<Rightarrow> r @ decode_rest buf) = ret @ xs"
proof (induction xs arbitrary: ret rule: base64_spec.induct)
  case (1 a b c r)
  show ?case by (simp add: decode_group 1)
next
  case (2 a b)
  have "take (Suc (Suc 0)) (octets (sextets a b 0 ! 0) (sextets a b 0 ! 1) (sextets a b 0 ! 2) z) = [a, b]" for z
    using octets_sextets [of a b 0] by (simp add: octets_def)
  then show ?case
    by (rule_tac sextets_list [of a b 0])
       (simp add: base64_char_inverse Let_def decode_rest_def)
next
  case (3 a)
  have "octets (sextets a 0 0 ! 0) (sextets a 0 0 ! 1) y z ! 0 = a" for y z
    using octets_sextets [of a 0 0] by (simp add: octets_def)
  then show ?case
    by (rule_tac sextets_list [of a 0 0])
       (simp add: base64_char_inverse Let_def decode_rest_def octets_def)
qed (simp add: decode_rest_def)

lemma Base64_roundtrip: "Base64Decode (Base64Encode xs) = xs"
  using decode_spec [of "[]" xs] by (simp add: Base64Decode_def Base64Encode_eq)

lemma length_base64_spec: "length (base64_spec xs) = 4 * ((length xs + 2) div 3)"
proof (induction xs rule: base64_spec.induct)
  case (1 a b c r)
  have "(5 + length r) div 3 = Suc (Suc (Suc (length r)) div 3)" by arith
  with 1 show ?case by simp
qed simp_all


text \<open>How much the decoder produces: it depends only on the position of the first \<open>=\<close>.\<close>

abbreviation data_chars :: "bytes \<Rightarrow> nat" where
  "data_chars s \<equiv> length (takeWhile (\<lambda>x. x \<noteq> 61) s)"

lemma decode_loop_length:
  "length buf < 4 \<Longrightarrow> decode_loop ret buf xs = (r, b) \<Longrightarrow>
   length r = length ret + 3 * ((length buf + data_chars xs) div 4)
   \<and> length b = (length buf + data_chars xs) mod 4"
proof (induction ret buf xs arbitrary: r b rule: decode_loop.induct)
  case (2 ret buf x xs)
  consider "x = 61" | "x \<noteq> 61" "length buf < 3" | "x \<noteq> 61" "length buf = 3"
    using 2(3) by linarith
  then show ?case
  proof cases
    case 1
    with 2(3,4) show ?thesis by simp
  next
    case two: 2
    with 2(4) have "decode_loop ret (buf @ [x]) xs = (r, b)" by simp
    from 2(2) [OF two(1) refl _ _ this] two show ?thesis by simp
  next
    case 3
    with 2(4) have "decode_loop (ret @ octets (map base64_value (buf @ [x]) ! 0)
        (map base64_value (buf @ [x]) ! 1) (map base64_value (buf @ [x]) ! 2)
        (map base64_value (buf @ [x]) ! 3)) [] xs = (r, b)"
      by (simp add: Let_def)
    moreover have "(4 + data_chars xs) div 4 = Suc (data_chars xs div 4)" by simp
    ultimately show ?thesis using 2(1) [OF 3(1) refl _ refl, of r b] 3 by simp
  qed
qed simp

lemma length_Base64Decode:
  "length (Base64Decode s) = 3 * (data_chars s div 4) + (data_chars s mod 4 - 1)"
proof -
  obtain r b where d: "decode_loop [] [] s = (r, b)" by fastforce
  from decode_loop_length [OF _ this] have "length r = 3 * (data_chars s div 4)"
    "length b = data_chars s mod 4" by auto
  moreover have "length (decode_rest b) = length b - 1" if "length b < 4"
    using that by (auto simp: decode_rest_def Let_def)
  ultimately show ?thesis by (simp add: Base64Decode_def d)
qed

lemma decoded_bound: "32 < 3 * (n div 4) + (n mod 4 - Suc 0) \<longleftrightarrow> 44 \<le> (n :: nat)"
proof -
  define q m where "q = n div 4" and "m = n mod 4"
  then have n: "n = 4 * q + m" and m: "m < 4" by simp_all
  then show ?thesis unfolding q_def [symmetric] m_def [symmetric] by arith
qed

section \<open>The cipher inverts\<close>

lemma word_of_int_mod_256: "word_of_int (x mod 256) = (word_of_int x :: byte)"
  by transfer (simp add: take_bit_eq_mod)

lemma smod_256: "0 \<le> x \<Longrightarrow> x smod (256 :: int) = x mod 256"
  by (simp add: signed_modulo_int_def sgn_if)

lemma uint_byte_bound: "0 \<le> uint (b :: byte)" "uint (b :: byte) < 256"
  using unsigned_less [of b, where ?'a = int] by simp_all

lemma shift_byte:
  "word_of_int ((uint c + uint k + uint s) smod 256) = c + k + (s :: byte)"
  by (simp add: smod_256 word_of_int_mod_256)

text \<open>The decrypting expression never goes below zero, so that \<open>%\<close> acts as the modulus.\<close>

lemma unshift_nonneg: "2 \<le> uint (c :: byte) - uint (k :: byte) - uint (s :: byte) + 512"
  using uint_byte_bound [of c] uint_byte_bound [of k] uint_byte_bound [of s] by linarith

lemma unshift_byte:
  "word_of_int ((uint c - uint k - uint s + 512) smod 256) = c - k - (s :: byte)"
  using unshift_nonneg [of c k s] by (simp add: smod_256 word_of_int_mod_256)

lemma length_shift_loops [simp]:
  "length (shift_encrypt_loop key i xs) = length xs"
  "length (shift_decrypt_loop key i xs) = length xs"
  by (induction xs arbitrary: i) simp_all

lemma shift_loops_inverse: "shift_decrypt_loop key i (shift_encrypt_loop key i xs) = xs"
  by (induction xs arbitrary: i) (simp_all add: shift_byte unshift_byte Let_def)

lemma master_key_neq_Nil: "master_key \<noteq> []" and KEY_LENGTH_eq [guard_simps]: "KEY_LENGTH = 32"
  by (simp_all add: master_key_def KEY_LENGTH_def)

lemma length_GenerateRandomBytes [simp]: "length (GenerateRandomBytes dis n) = n"
  by (simp add: GenerateRandomBytes_def)

lemma session_key_neq_Nil: "GenerateRandomBytes dis 32 \<noteq> []"
  by (simp add: GenerateRandomBytes_def)

lemma shift_encrypt_loop_Nil [simp]: "shift_encrypt_loop key i xs = [] \<longleftrightarrow> xs = []"
  by (cases xs) (simp_all add: Let_def)

lemma Encrypt_eq:
  "d \<noteq> [] \<Longrightarrow> Encrypt dis d out = Inr (True, Base64Encode
     (shift_encrypt_loop master_key 0 (GenerateRandomBytes dis 32)
      @ shift_encrypt_loop (GenerateRandomBytes dis 32) 0 d))"
  by (simp add: Encrypt_def ShiftEncrypt_def master_key_neq_Nil guard_simps Let_def session_key_neq_Nil)

lemma Decrypt_eq:
  assumes "32 < length (Base64Decode c)"
  shows "Decrypt c out = Inr (True, shift_decrypt_loop
     (shift_decrypt_loop master_key 0 (take 32 (Base64Decode c))) 0 (drop 32 (Base64Decode c)))"
proof -
  have "length (shift_decrypt_loop master_key 0 (take 32 (Base64Decode c))) = 32"
    using assms by simp
  then show ?thesis
    using assms by (auto simp: Decrypt_def ShiftDecrypt_def master_key_neq_Nil guard_simps Let_def substr_def
        simp del: length_shift_loops)
qed

lemma Decrypt_Encrypt:
  "d \<noteq> [] \<Longrightarrow> Encrypt dis d out = Inr (True, c) \<Longrightarrow> Decrypt c out' = Inr (True, d)"
  by (auto simp: Encrypt_eq Decrypt_eq Base64_roundtrip shift_loops_inverse)

lemma Base64Encode_neq_Nil: "xs \<noteq> [] \<Longrightarrow> Base64Encode xs \<noteq> []"
  using length_base64_spec [of xs] by (cases xs) (auto simp: Base64Encode_eq)

interpretation aes: byte_layer "Encrypt dis" Decrypt "\<lambda>d. d \<noteq> []" for dis
proof
  fix d :: bytes assume "d \<noteq> []"
  then show "\<exists>c. c \<noteq> [] \<and> (\<forall>out. Encrypt dis d out = Inr (True, c))
      \<and> (\<forall>out. Decrypt c out = Inr (True, d))"
    by (auto simp: Encrypt_eq Decrypt_eq Base64_roundtrip shift_loops_inverse Base64Encode_neq_Nil)
qed

lemma Decrypt_result:
  "\<exists>b p. Decrypt c out = Inr (b, p) \<and> (b \<longleftrightarrow> 44 \<le> data_chars c)
       \<and> (\<not> b \<or> length p = length (Base64Decode c) - 32) \<and> (b \<or> p = out)"
proof (cases "32 < length (Base64Decode c)")
  case True
  then show ?thesis by (intro exI [of _ True]) (simp add: Decrypt_eq decoded_bound length_Base64Decode)
next
  case False
  then show ?thesis
    by (intro exI [of _ False])
       (simp add: Decrypt_def Let_def guard_simps decoded_bound length_Base64Decode flip: not_less)
qed

section \<open>Properties\<close>


text \<open>
  Base64 round trip: decoding an encoding gives the input back, byte for byte, for inputs
  of every length; the encoding has four characters for every three bytes begun.
\<close>

theorem Base64_inverse:
  "Base64Decode (Base64Encode xs) = xs \<and> length (Base64Encode xs) = 4 * ((length xs + 2) div 3)"
  using Base64_roundtrip [of xs] by (simp add: Base64Encode_eq length_base64_spec)

text \<open>
  C26. Encryption round trip: for every nonempty input and whatever bytes the random generator
  draws for the session key, \<open>Encrypt\<close> succeeds and \<open>Decrypt\<close> recovers the input.
\<close>

theorem encrypt_roundtrip:
  "d \<noteq> [] \<Longrightarrow> \<exists>c. Encrypt dis d out = Inr (True, c) \<and> Decrypt c out' = Inr (True, d)"
  using aes.put_get [of d dis] by blast

theorem encrypt_roundtrip_witness:
  "\<exists>c. Encrypt (\<lambda>i. int i * 7 mod 256) (str ''hello'') [] = Inr (True, c)
     \<and> Decrypt c [] = Inr (True, str ''hello'')"
  by (rule encrypt_roundtrip) simp

text \<open>
  What \<open>Decrypt\<close> accepts: exactly the strings with at least 44 characters before the first
  \<open>=\<close>, whatever these characters are. There is no check of the alphabet and no integrity check:
  corrupt text decrypts successfully to some other plaintext, and \<open>Decrypt\<close> never faults.
\<close>

theorem decrypt_accepts_iff:
  "\<exists>b p. Decrypt c out = Inr (b, p) \<and> (b \<longleftrightarrow> 44 \<le> data_chars c)
       \<and> (\<not> b \<or> length p = length (Base64Decode c) - 32) \<and> (b \<or> p = out)"
  by (rule Decrypt_result)

theorem decrypt_accepts_iff_witness:
  "\<exists>p. Decrypt (replicate 48 255) [] = Inr (True, p) \<and> length p = length (Base64Decode (replicate 48 255)) - 32"
  using decrypt_accepts_iff [of "replicate 48 255" "[]"] by (auto simp: takeWhile_replicate)

end
