(* ===== verification/Zstd_Compress.thy ===== *)
theory Zstd_Compress
  imports Contracts
begin

text \<open>
  \<open>rpc_src/compress_data/zstd_compress.h\<close> and \<open>zstd_compress.cpp\<close>: the wrapper around the
  zstd library. The library is a parameter, a record of the functions and macros the wrapper
  uses; a call that fills a buffer takes the buffer and returns its new content with the
  returned code. \<open>mem\<close> bounds what \<open>resize\<close> can allocate: beyond it, \<open>resize\<close> throws.
\<close>

datatype level = FASTEST | DEFAULT | BETTER | BEST | MAX_LEVEL

fun level_value :: "level \<Rightarrow> int" where
  "level_value FASTEST = 1"
| "level_value DEFAULT = 3"
| "level_value BETTER = 7"
| "level_value BEST = 19"
| "level_value MAX_LEVEL = 22"

record zstd_lib =
  ZSTD_compressBound :: "nat \<Rightarrow> nat"
  ZSTD_compress :: "bytes \<Rightarrow> bytes \<Rightarrow> int \<Rightarrow> bytes \<times> nat"
  ZSTD_isError :: "nat \<Rightarrow> bool"
  ZSTD_getFrameContentSize :: "bytes \<Rightarrow> nat"
  ZSTD_decompress :: "bytes \<Rightarrow> bytes \<Rightarrow> bytes \<times> nat"
  ZSTD_CONTENTSIZE_ERROR :: nat
  ZSTD_CONTENTSIZE_UNKNOWN :: nat

definition resize_or_throw :: "nat \<Rightarrow> nat \<Rightarrow> bytes \<Rightarrow> fault + bytes" where
  "resize_or_throw mem n s = (if n > mem then Inl Bad_alloc else Inr (resize n s))"

definition GetCompressBound :: "zstd_lib \<Rightarrow> nat \<Rightarrow> nat" where
  "GetCompressBound z src_size = ZSTD_compressBound z src_size"

definition CompressString :: "zstd_lib \<Rightarrow> nat \<Rightarrow> level \<Rightarrow> bytes \<Rightarrow> bytes \<Rightarrow> fault + bool \<times> bytes" where
  "CompressString z mem level src dst =
     (if src = [] then Inr (True, [])
      else case resize_or_throw mem (ZSTD_compressBound z (length src)) dst of
        Inl e \<Rightarrow> Inl e
      | Inr dst \<Rightarrow>
          (case ZSTD_compress z dst src (level_value level) of (dst, actual_size) \<Rightarrow>
             if ZSTD_isError z actual_size then Inr (False, dst)
             else case resize_or_throw mem actual_size dst of
               Inl e \<Rightarrow> Inl e
             | Inr dst \<Rightarrow> Inr (True, dst)))"

definition DecompressString :: "zstd_lib \<Rightarrow> nat \<Rightarrow> bytes \<Rightarrow> bytes \<Rightarrow> fault + bool \<times> bytes" where
  "DecompressString z mem src dst =
     (if src = [] then Inr (True, [])
      else let decompressed_size = ZSTD_getFrameContentSize z src in
        if decompressed_size = ZSTD_CONTENTSIZE_ERROR z \<or> decompressed_size = ZSTD_CONTENTSIZE_UNKNOWN z
        then Inr (False, dst)
        else case resize_or_throw mem decompressed_size dst of
          Inl e \<Rightarrow> Inl e
        | Inr dst \<Rightarrow>
            (case ZSTD_decompress z dst src of (dst, actual_size) \<Rightarrow>
               if ZSTD_isError z actual_size then Inr (False, dst)
               else case resize_or_throw mem actual_size dst of
                 Inl e \<Rightarrow> Inl e
               | Inr dst \<Rightarrow> Inr (True, dst)))"

text \<open>
  The binary versions take a pointer and a length; the pointer is \<open>None\<close> for \<open>nullptr\<close>, else the
  memory it points to.
\<close>

definition CompressData :: "zstd_lib \<Rightarrow> nat \<Rightarrow> level \<Rightarrow> bytes option \<Rightarrow> nat \<Rightarrow> bytes \<Rightarrow> fault + bool \<times> bytes" where
  "CompressData z mem level src src_len dst =
     (case src of
        None \<Rightarrow> Inr (True, [])
      | Some p \<Rightarrow>
          if src_len = 0 then Inr (True, [])
          else case resize_or_throw mem (ZSTD_compressBound z src_len) dst of
            Inl e \<Rightarrow> Inl e
          | Inr dst \<Rightarrow>
              (case ZSTD_compress z dst (take src_len p) (level_value level) of (dst, actual_size) \<Rightarrow>
                 if ZSTD_isError z actual_size then Inr (False, dst)
                 else case resize_or_throw mem actual_size dst of
                   Inl e \<Rightarrow> Inl e
                 | Inr dst \<Rightarrow> Inr (True, dst)))"

definition DecompressData :: "zstd_lib \<Rightarrow> nat \<Rightarrow> bytes option \<Rightarrow> nat \<Rightarrow> bytes \<Rightarrow> fault + bool \<times> bytes" where
  "DecompressData z mem src src_len dst =
     (case src of
        None \<Rightarrow> Inr (True, [])
      | Some p \<Rightarrow>
          if src_len = 0 then Inr (True, [])
          else let decompressed_size = ZSTD_getFrameContentSize z (take src_len p) in
            if decompressed_size = ZSTD_CONTENTSIZE_ERROR z \<or> decompressed_size = ZSTD_CONTENTSIZE_UNKNOWN z
            then Inr (False, dst)
            else case resize_or_throw mem decompressed_size dst of
              Inl e \<Rightarrow> Inl e
            | Inr dst \<Rightarrow>
                (case ZSTD_decompress z dst (take src_len p) of (dst, actual_size) \<Rightarrow>
                   if ZSTD_isError z actual_size then Inr (False, dst)
                   else case resize_or_throw mem actual_size dst of
                     Inl e \<Rightarrow> Inl e
                   | Inr dst \<Rightarrow> Inr (True, dst)))"

section \<open>What the wrapper relies on\<close>

text \<open>
  The documented contract of the simple API: with a destination of \<open>ZSTD_compressBound\<close> bytes
  compression succeeds; the frame it writes at the start of the destination is not empty and
  records the content size; decompressing the frame into a buffer of that size gives the source
  back. Sizes are below \<open>2 ^ 62\<close>, far from the error codes.
\<close>

definition zstd_lossless :: "zstd_lib \<Rightarrow> bool" where
  "zstd_lossless z \<longleftrightarrow>
     (\<forall>src level. src \<noteq> [] \<and> length src < 2 ^ 62 \<longrightarrow>
        (\<exists>c. c \<noteq> [] \<and> length c \<le> ZSTD_compressBound z (length src) \<and> \<not> ZSTD_isError z (length c)
           \<and> (\<forall>buf. length buf = ZSTD_compressBound z (length src) \<longrightarrow>
                (\<exists>t. ZSTD_compress z buf src (level_value level) = (c @ t, length c)))
           \<and> ZSTD_getFrameContentSize z c = length src
           \<and> length src \<noteq> ZSTD_CONTENTSIZE_ERROR z \<and> length src \<noteq> ZSTD_CONTENTSIZE_UNKNOWN z
           \<and> \<not> ZSTD_isError z (length src)
           \<and> (\<forall>buf. length buf = length src \<longrightarrow> ZSTD_decompress z buf c = (src, length src))))"

definition compressible :: "zstd_lib \<Rightarrow> nat \<Rightarrow> bytes \<Rightarrow> bool" where
  "compressible z mem d \<longleftrightarrow> zstd_lossless z \<and> d \<noteq> [] \<and> length d < 2 ^ 62 \<and> length d \<le> mem
     \<and> ZSTD_compressBound z (length d) \<le> mem"

text \<open>A concrete library that meets the contract: frames that store their content.\<close>

definition stored_zstd :: zstd_lib where
  "stored_zstd = \<lparr>
     ZSTD_compressBound = (\<lambda>n. n + 1),
     ZSTD_compress = (\<lambda>buf src lvl. (1 # src @ drop (length src + 1) buf, length src + 1)),
     ZSTD_isError = (\<lambda>n. n > 2 ^ 63),
     ZSTD_getFrameContentSize = (\<lambda>s. if s \<noteq> [] \<and> hd s = 1 then length s - 1 else 2 ^ 64 - 2),
     ZSTD_decompress = (\<lambda>buf s. (tl s, length s - 1)),
     ZSTD_CONTENTSIZE_ERROR = 2 ^ 64 - 2,
     ZSTD_CONTENTSIZE_UNKNOWN = 2 ^ 64 - 1\<rparr>"

lemma stored_zstd_lossless: "zstd_lossless stored_zstd"
  unfolding zstd_lossless_def
proof (intro allI impI)
  fix src :: bytes and level
  assume "src \<noteq> [] \<and> length src < 2 ^ 62"
  then show "\<exists>c. c \<noteq> [] \<and> length c \<le> ZSTD_compressBound stored_zstd (length src)
      \<and> \<not> ZSTD_isError stored_zstd (length c)
      \<and> (\<forall>buf. length buf = ZSTD_compressBound stored_zstd (length src) \<longrightarrow>
           (\<exists>t. ZSTD_compress stored_zstd buf src (level_value level) = (c @ t, length c)))
      \<and> ZSTD_getFrameContentSize stored_zstd c = length src
      \<and> length src \<noteq> ZSTD_CONTENTSIZE_ERROR stored_zstd
      \<and> length src \<noteq> ZSTD_CONTENTSIZE_UNKNOWN stored_zstd
      \<and> \<not> ZSTD_isError stored_zstd (length src)
      \<and> (\<forall>buf. length buf = length src \<longrightarrow> ZSTD_decompress stored_zstd buf c = (src, length src))"
    by (intro exI [of _ "1 # src"]) (simp add: stored_zstd_def)
qed

section \<open>The wrapper inverts\<close>

lemma compressibleE:
  assumes "compressible z mem d"
  obtains c where "c \<noteq> []" "length c \<le> ZSTD_compressBound z (length d)"
    "\<not> ZSTD_isError z (length c)"
    "\<And>buf. length buf = ZSTD_compressBound z (length d) \<Longrightarrow>
       \<exists>t. ZSTD_compress z buf d (level_value level) = (c @ t, length c)"
    "ZSTD_getFrameContentSize z c = length d"
    "length d \<noteq> ZSTD_CONTENTSIZE_ERROR z" "length d \<noteq> ZSTD_CONTENTSIZE_UNKNOWN z"
    "\<not> ZSTD_isError z (length d)"
    "\<And>buf. length buf = length d \<Longrightarrow> ZSTD_decompress z buf c = (d, length d)"
proof -
  from assms obtain c where "c \<noteq> []" "length c \<le> ZSTD_compressBound z (length d)"
    "\<not> ZSTD_isError z (length c)"
    "\<forall>buf. length buf = ZSTD_compressBound z (length d) \<longrightarrow>
       (\<exists>t. ZSTD_compress z buf d (level_value level) = (c @ t, length c))"
    "ZSTD_getFrameContentSize z c = length d"
    "length d \<noteq> ZSTD_CONTENTSIZE_ERROR z" "length d \<noteq> ZSTD_CONTENTSIZE_UNKNOWN z"
    "\<not> ZSTD_isError z (length d)"
    "\<forall>buf. length buf = length d \<longrightarrow> ZSTD_decompress z buf c = (d, length d)"
    unfolding compressible_def zstd_lossless_def by metis
  then show thesis by (intro that [of c]) simp_all
qed

lemma CompressString_bound:
  assumes "compressible z mem d"
  shows "\<exists>c. c \<noteq> [] \<and> length c \<le> ZSTD_compressBound z (length d) \<and> (\<forall>out. CompressString z mem level d out = Inr (True, c))
     \<and> (\<forall>out. DecompressString z mem c out = Inr (True, d))"
proof -
  obtain c where c: "c \<noteq> []" "length c \<le> ZSTD_compressBound z (length d)"
    "\<not> ZSTD_isError z (length c)"
    "\<And>buf. length buf = ZSTD_compressBound z (length d) \<Longrightarrow>
       \<exists>t. ZSTD_compress z buf d (level_value level) = (c @ t, length c)"
    "ZSTD_getFrameContentSize z c = length d"
    "length d \<noteq> ZSTD_CONTENTSIZE_ERROR z" "length d \<noteq> ZSTD_CONTENTSIZE_UNKNOWN z"
    "\<not> ZSTD_isError z (length d)"
    "\<And>buf. length buf = length d \<Longrightarrow> ZSTD_decompress z buf c = (d, length d)"
    using compressibleE [OF assms, of level] by metis
  have d: "d \<noteq> []" "length d \<le> mem" "ZSTD_compressBound z (length d) \<le> mem"
    using assms by (auto simp: compressible_def)
  have "CompressString z mem level d out = Inr (True, c)" for out
  proof -
    obtain t where "ZSTD_compress z (resize (ZSTD_compressBound z (length d)) out) d (level_value level)
        = (c @ t, length c)"
      using c(4) [of "resize (ZSTD_compressBound z (length d)) out"] by auto
    then show ?thesis
      using c d by (simp add: CompressString_def resize_or_throw_def resize_take)
  qed
  moreover have "DecompressString z mem c out = Inr (True, d)" for out
    using c d by (simp add: DecompressString_def resize_or_throw_def Let_def resize_id)
  ultimately show ?thesis using c(1,2) by blast
qed

lemma CompressString_roundtrip:
  "compressible z mem d \<Longrightarrow> \<exists>c. c \<noteq> [] \<and> (\<forall>out. CompressString z mem level d out = Inr (True, c))
     \<and> (\<forall>out. DecompressString z mem c out = Inr (True, d))"
  using CompressString_bound by blast

interpretation zstd: byte_layer "CompressString z mem level" "DecompressString z mem" "compressible z mem"
  for z mem level
  by unfold_locales (rule CompressString_roundtrip)

lemma DecompressString_throws:
  assumes "src \<noteq> []" and "mem < ZSTD_getFrameContentSize z src"
    and "ZSTD_getFrameContentSize z src \<noteq> ZSTD_CONTENTSIZE_ERROR z"
    and "ZSTD_getFrameContentSize z src \<noteq> ZSTD_CONTENTSIZE_UNKNOWN z"
  shows "DecompressString z mem src dst = Inl Bad_alloc"
  using assms by (simp add: DecompressString_def Let_def resize_or_throw_def)

section \<open>Properties\<close>

text \<open>
  Compression round trip through both interfaces: what \<open>CompressString\<close> makes of a
  nonempty source, \<open>DecompressString\<close> takes back to the source, and the pointer-based
  functions agree with the string-based ones.
\<close>

theorem compress_roundtrip:
  assumes "zstd_lossless z" and "0 < length d" and "length d < 2 ^ 62"
    and "length d \<le> mem" and "ZSTD_compressBound z (length d) \<le> mem"
  shows "\<exists>c. CompressString z mem level d out = Inr (True, c)
     \<and> DecompressString z mem c out' = Inr (True, d)
     \<and> CompressData z mem level (Some d) (length d) out = Inr (True, c)
     \<and> DecompressData z mem (Some c) (length c) out' = Inr (True, d)"
proof -
  have ok: "compressible z mem d" using assms by (simp add: compressible_def)
  from zstd.put_get [OF this, of level] obtain c where c: "c \<noteq> []"
    "\<forall>out. CompressString z mem level d out = Inr (True, c)"
    "\<forall>out. DecompressString z mem c out = Inr (True, d)"
    by auto
  have "CompressData z mem level (Some d) (length d) out = CompressString z mem level d out"
    "DecompressData z mem (Some c) (length c) out' = DecompressString z mem c out'"
    using assms(2) c(1) take_all
    unfolding CompressData_def CompressString_def DecompressData_def DecompressString_def option.case
      take_all [OF order.refl]
    by auto
  with c show ?thesis by auto
qed

theorem compress_roundtrip_witness:
  "\<exists>c. CompressString stored_zstd 1000 DEFAULT (str ''payload'') [9] = Inr (True, c)
     \<and> DecompressString stored_zstd 1000 c [] = Inr (True, str ''payload'')
     \<and> CompressData stored_zstd 1000 DEFAULT (Some (str ''payload'')) (length (str ''payload'')) [9] = Inr (True, c)
     \<and> DecompressData stored_zstd 1000 (Some c) (length c) [] = Inr (True, str ''payload'')"
  by (rule compress_roundtrip) (simp_all add: stored_zstd_lossless, simp add: stored_zstd_def)

text \<open>
  The content size a frame announces is trusted: a frame that announces more than the
  process can allocate makes \<open>DecompressString\<close> throw, before anything is decompressed.
\<close>

theorem decompress_bomb:
  assumes "src \<noteq> []" and "mem < ZSTD_getFrameContentSize z src"
    and "ZSTD_getFrameContentSize z src \<noteq> ZSTD_CONTENTSIZE_ERROR z"
    and "ZSTD_getFrameContentSize z src \<noteq> ZSTD_CONTENTSIZE_UNKNOWN z"
  shows "DecompressString z mem src dst = Inl Bad_alloc"
  using assms by (rule DecompressString_throws)

theorem decompress_bomb_witness:
  "DecompressString (stored_zstd\<lparr>ZSTD_getFrameContentSize := \<lambda>_. 2 ^ 60\<rparr>) (2 ^ 40) [1, 2, 3] [] = Inl Bad_alloc"
  by (rule decompress_bomb) (simp_all add: stored_zstd_def)

end
