(* ===== verification/Connection.thy ===== *)
theory Connection
  imports Rpc_Protocol Aes_Encrypt Zstd_Compress
begin

text \<open>
  \<open>rpc_src/network/connection.h\<close> and \<open>connection.cpp\<close>: one TCP connection, with its receive
  buffer, the framing of messages on the wire and both directions of the pipeline
  (serialize, compress, encrypt, prefix the length; and back). Kernel results are lists:
  \<open>read_result\<close> for \<open>::read\<close>, \<open>select_result\<close> for \<open>select\<close>, \<open>write_result\<close> for \<open>::write\<close>. The
  other parameters are the zstd library \<open>z\<close>, the allocation bound \<open>mem\<close> and the random draws
  \<open>dis\<close>.
\<close>

datatype conn_state = CONNECTED | DISCONNECTED

datatype frame_status = kIncomplete | kComplete | kError

record connection =
  fd :: int
  read_buffer :: bytes
  cstate :: conn_state

definition MAX_BUFFER_SIZE :: nat where
  "MAX_BUFFER_SIZE = 1024 * 1024"

definition MAX_FRAME_SIZE :: nat where
  "MAX_FRAME_SIZE = 16 * 1024 * 1024"

definition READ_CHUNK :: nat where
  "READ_CHUNK = 4096"

definition FD_SETSIZE :: int where
  "FD_SETSIZE = 1024"

lemma limits [guard_simps]:
  "MAX_BUFFER_SIZE = 1048576" "MAX_FRAME_SIZE = 16777216" "READ_CHUNK = 4096" "FD_SETSIZE = 1024"
  by (simp_all add: MAX_BUFFER_SIZE_def MAX_FRAME_SIZE_def READ_CHUNK_def FD_SETSIZE_def)

definition new_connection :: "int \<Rightarrow> connection" where
  "new_connection f = \<lparr>fd = f, read_buffer = [], cstate = (if f \<ge> 0 then CONNECTED else DISCONNECTED)\<rparr>"

definition IsValid :: "connection \<Rightarrow> bool" where
  "IsValid c \<longleftrightarrow> fd c > 0 \<and> cstate c = CONNECTED"

definition Close :: "connection \<Rightarrow> connection" where
  "Close c = (if fd c \<ge> 0 then c\<lparr>fd := -1\<rparr> else c)\<lparr>cstate := DISCONNECTED\<rparr>"

section \<open>Reading\<close>

text \<open>\<open>Rd bs\<close>: \<open>read\<close> returned \<open>length bs\<close>, at most 4096; \<open>Rd []\<close> is the end of the stream.\<close>

datatype read_result = Rd bytes | Rd_again | Rd_error int

fun Read_loop :: "read_result list \<Rightarrow> connection \<Rightarrow> (bool \<times> connection \<times> read_result list) run" where
  "Read_loop [] c = Blocked"
| "Read_loop (Rd_again # rs) c = Done (True, c, rs)"
| "Read_loop (Rd_error errno # rs) c = Done (False, c\<lparr>cstate := DISCONNECTED\<rparr>, rs)"
| "Read_loop (Rd buf # rs) c =
     (if length buf = 0 then Done (False, c\<lparr>cstate := DISCONNECTED\<rparr>, rs)
      else if length (read_buffer c) + length buf > MAX_BUFFER_SIZE
      then Done (False, c\<lparr>cstate := DISCONNECTED\<rparr>, rs)
      else let c = c\<lparr>read_buffer := read_buffer c @ buf\<rparr> in
        if length buf < READ_CHUNK then Done (True, c, rs) else Read_loop rs c)"

definition Read :: "read_result list \<Rightarrow> connection \<Rightarrow> (bool \<times> connection \<times> read_result list) run" where
  "Read rs c = (if cstate c \<noteq> CONNECTED then Done (False, c, rs) else Read_loop rs c)"

text \<open>\<open>FD_SET\<close> with a descriptor outside \<open>0 .. FD_SETSIZE - 1\<close> writes outside the set.\<close>

datatype select_result = Sel_ready | Sel_timeout | Sel_intr | Sel_error

fun ReadWithTimeout :: "select_result list \<Rightarrow> read_result list \<Rightarrow> connection
    \<Rightarrow> (bool \<times> connection \<times> select_result list \<times> read_result list) run" where
  "ReadWithTimeout ss rs c =
     (if fd c < 0 \<or> fd c \<ge> FD_SETSIZE then Fault Bad_access
      else case ss of
        [] \<Rightarrow> Blocked
      | Sel_intr # ss \<Rightarrow> ReadWithTimeout ss rs c
      | Sel_error # ss \<Rightarrow> Done (False, c, ss, rs)
      | Sel_timeout # ss \<Rightarrow> Done (False, c, ss, rs)
      | Sel_ready # ss \<Rightarrow>
          (case Read rs c of
             Blocked \<Rightarrow> Blocked
           | Fault e \<Rightarrow> Fault e
           | Done (b, c, rs) \<Rightarrow> Done (b, c, ss, rs)))"

section \<open>Cutting a frame out of the receive buffer\<close>

definition ExtractFrame :: "zstd_lib \<Rightarrow> nat \<Rightarrow> connection \<Rightarrow> bytes \<Rightarrow> fault + frame_status \<times> bytes \<times> connection" where
  "ExtractFrame z mem c frame_out =
     (if length (read_buffer c) < 4 then Inr (kIncomplete, frame_out, c)
      else let net_len = of_le32 (take 4 (read_buffer c));
               cipher_len = ntohl net_len in
        if unat cipher_len > MAX_FRAME_SIZE then Inr (kError, frame_out, c)
        else let total_len = 4 + unat cipher_len in
          if length (read_buffer c) < total_len then Inr (kIncomplete, frame_out, c)
          else let ciphertext = substr (read_buffer c) 4 (unat cipher_len);
                   c = c\<lparr>read_buffer := drop total_len (read_buffer c)\<rparr> in
            case Decrypt ciphertext [] of
              Inl e \<Rightarrow> Inl e
            | Inr (False, _) \<Rightarrow> Inr (kError, frame_out, c)
            | Inr (True, decrypted) \<Rightarrow>
                (case DecompressString z mem decrypted [] of
                   Inl e \<Rightarrow> Inl e
                 | Inr (False, _) \<Rightarrow> Inr (kError, frame_out, c)
                 | Inr (True, decompressed) \<Rightarrow>
                     if length decompressed < sizeof_header then Inr (kError, frame_out, c)
                     else if magic_number (parse_header decompressed) \<noteq> MAGIC
                     then Inr (kError, frame_out, c)
                     else Inr (kComplete, decompressed, c)))"

section \<open>Writing\<close>

text \<open>
  \<open>Wr n\<close>: \<open>write\<close> took \<open>n\<close> bytes; \<open>Wr_again\<close> is \<open>EAGAIN\<close>; \<open>Wr_error\<close> any other error;
  \<open>Wr_pipe\<close>: the peer is gone and the kernel raises \<open>SIGPIPE\<close>. The second component of the result
  is the bytes that went onto the wire.
\<close>

datatype write_result = Wr nat | Wr_again | Wr_error int | Wr_pipe

fun Write_loop :: "write_result list \<Rightarrow> bytes \<Rightarrow> nat \<Rightarrow> connection
    \<Rightarrow> (bool \<times> bytes \<times> connection \<times> write_result list) run" where
  "Write_loop ws data sent c =
     (if \<not> sent < length data then Done (True, take sent data, c, ws)
      else case ws of
        [] \<Rightarrow> Blocked
      | Wr_again # ws \<Rightarrow> Write_loop ws data sent c
      | Wr_pipe # ws \<Rightarrow> Fault Sigpipe
      | Wr_error errno # ws \<Rightarrow> Done (False, take sent data, c\<lparr>cstate := DISCONNECTED\<rparr>, ws)
      | Wr n # ws \<Rightarrow> Write_loop ws data (sent + n) c)"

definition Write :: "write_result list \<Rightarrow> bytes \<Rightarrow> connection
    \<Rightarrow> (bool \<times> bytes \<times> connection \<times> write_result list) run" where
  "Write ws data c =
     (if cstate c \<noteq> CONNECTED \<or> data = [] then Done (False, [], c, ws) else Write_loop ws data 0 c)"

definition WriteFrame :: "zstd_lib \<Rightarrow> nat \<Rightarrow> (nat \<Rightarrow> int) \<Rightarrow> write_result list \<Rightarrow> bytes \<Rightarrow> connection
    \<Rightarrow> (bool \<times> bytes \<times> connection \<times> write_result list) run" where
  "WriteFrame z mem dis ws data c =
     (case CompressString z mem DEFAULT data [] of
        Inl e \<Rightarrow> Fault e
      | Inr (False, _) \<Rightarrow> Done (False, [], c, ws)
      | Inr (True, compressed) \<Rightarrow>
          (case Encrypt dis compressed [] of
             Inl e \<Rightarrow> Fault e
           | Inr (False, _) \<Rightarrow> Done (False, [], c, ws)
           | Inr (True, encrypted) \<Rightarrow>
               let net_len = htonl (of_nat (length encrypted));
                   wire = memcpy_at 0 (le32 net_len) (resize 4 []);
                   wire = wire @ encrypted
               in Write ws wire c))"

definition Write_response :: "zstd_lib \<Rightarrow> nat \<Rightarrow> (nat \<Rightarrow> int) \<Rightarrow> write_result list \<Rightarrow> rpc_response \<Rightarrow> connection
    \<Rightarrow> (bool \<times> bytes \<times> connection \<times> write_result list) run" where
  "Write_response z mem dis ws response c =
     (case RpcResponse_Serialize mem response [] of
        (False, _) \<Rightarrow> Done (False, [], c, ws)
      | (True, serialized) \<Rightarrow> WriteFrame z mem dis ws serialized c)"

definition Write_request :: "zstd_lib \<Rightarrow> nat \<Rightarrow> (nat \<Rightarrow> int) \<Rightarrow> write_result list \<Rightarrow> rpc_request \<Rightarrow> connection
    \<Rightarrow> (bool \<times> bytes \<times> connection \<times> write_result list) run" where
  "Write_request z mem dis ws request c =
     (case RpcRequest_Serialize mem request [] of
        (False, _) \<Rightarrow> Done (False, [], c, ws)
      | (True, serialized) \<Rightarrow> WriteFrame z mem dis ws serialized c)"

declare Read_loop.simps(4) [simp del] ReadWithTimeout.simps [simp del] Write_loop.simps [simp del]


section \<open>What the write loop puts on the wire\<close>

lemma Write_loop_Done:
  "Write_loop ws data sent c = Done (ok, out, c', ws') \<Longrightarrow>
   (\<exists>n. out = take n data \<and> (ok \<longrightarrow> length data \<le> n))
   \<and> (ok \<longrightarrow> c' = c) \<and> (\<not> ok \<longrightarrow> c' = c\<lparr>cstate := DISCONNECTED\<rparr>)"
proof (induction ws arbitrary: sent)
  case Nil
  then show ?case
    by (subst (asm) Write_loop.simps) (auto split: if_splits intro: exI [of _ sent])
next
  case (Cons w ws)
  show ?case
  proof (cases "sent < length data")
    case False
    with Cons.prems show ?thesis
      by (subst (asm) Write_loop.simps) (auto intro: exI [of _ sent])
  next
    case True
    show ?thesis
    proof (cases w)
      case (Wr n)
      with Cons.prems True have "Write_loop ws data (sent + n) c = Done (ok, out, c', ws')"
        by (subst (asm) Write_loop.simps) simp
      from Cons.IH [OF this] show ?thesis .
    next
      case Wr_again
      with Cons.prems True have "Write_loop ws data sent c = Done (ok, out, c', ws')"
        by (subst (asm) Write_loop.simps) simp
      from Cons.IH [OF this] show ?thesis .
    next
      case (Wr_error e)
      with Cons.prems True show ?thesis
        by (subst (asm) Write_loop.simps) (auto intro: exI [of _ sent])
    next
      case Wr_pipe
      with Cons.prems True show ?thesis
        by (subst (asm) Write_loop.simps) simp
    qed
  qed
qed

text \<open>The bytes a sequence of kernel results takes, if it holds no error.\<close>

fun taken :: "write_result list \<Rightarrow> nat" where
  "taken [] = 0"
| "taken (Wr n # ws) = n + taken ws"
| "taken (Wr_again # ws) = taken ws"
| "taken (_ # ws) = 0"

definition no_error :: "write_result list \<Rightarrow> bool" where
  "no_error ws \<longleftrightarrow> list_all (\<lambda>w. case w of Wr _ \<Rightarrow> True | Wr_again \<Rightarrow> True | _ \<Rightarrow> False) ws"

lemma Write_loop_completes:
  "no_error ws \<Longrightarrow> length data \<le> sent + taken ws \<Longrightarrow>
   \<exists>ws'. Write_loop ws data sent c = Done (True, data, c, ws')"
proof (induction ws arbitrary: sent)
  case Nil
  then show ?case by (subst Write_loop.simps) simp
next
  case (Cons w ws)
  show ?case
  proof (cases "sent < length data")
    case False
    then show ?thesis by (subst Write_loop.simps) simp
  next
    case True
    have rest: "no_error ws" using Cons.prems by (simp add: no_error_def)
    show ?thesis
    proof (cases w)
      case (Wr n)
      with Cons.IH [OF rest, of "sent + n"] Cons.prems True show ?thesis
        by (subst Write_loop.simps) simp
    next
      case Wr_again
      with Cons.IH [OF rest, of sent] Cons.prems True show ?thesis
        by (subst Write_loop.simps) simp
    qed (use Cons.prems in \<open>simp_all add: no_error_def\<close>)
  qed
qed

lemma Write_Done:
  assumes "Write ws data c = Done (ok, out, c', ws')"
  shows "\<exists>n. out = take n data" and "ok \<Longrightarrow> out = data \<and> c' = c"
    and "\<not> ok \<Longrightarrow> cstate c' = DISCONNECTED \<or> data = []"
    and "read_buffer c' = read_buffer c" and "fd c' = fd c"
proof -
  have *: "(\<exists>n. out = take n data) \<and> (ok \<longrightarrow> out = data \<and> c' = c)
      \<and> (\<not> ok \<longrightarrow> (c' = c \<and> (cstate c \<noteq> CONNECTED \<or> data = [])) \<or> c' = c\<lparr>cstate := DISCONNECTED\<rparr>)"
  proof (cases "cstate c \<noteq> CONNECTED \<or> data = []")
    case True
    with assms show ?thesis by (auto simp: Write_def intro: exI [of _ 0])
  next
    case False
    with assms have "Write_loop ws data 0 c = Done (ok, out, c', ws')" by (simp add: Write_def)
    from Write_loop_Done [OF this] show ?thesis by auto
  qed
  show "\<exists>n. out = take n data" using * by blast
  show "ok \<Longrightarrow> out = data \<and> c' = c" using * by blast
  from * consider "c' = c" "ok \<or> cstate c \<noteq> CONNECTED \<or> data = []" | "c' = c\<lparr>cstate := DISCONNECTED\<rparr>"
    by blast
  then have "(\<not> ok \<longrightarrow> cstate c' = DISCONNECTED \<or> data = []) \<and> read_buffer c' = read_buffer c \<and> fd c' = fd c"
    by cases (auto intro: conn_state.exhaust [of "cstate c"])
  then show "\<not> ok \<Longrightarrow> cstate c' = DISCONNECTED \<or> data = []"
    and "read_buffer c' = read_buffer c" and "fd c' = fd c" by blast+
qed

section \<open>The image of a frame\<close>

definition wire_frame :: "bytes \<Rightarrow> bytes" where
  "wire_frame enc = rev (le32 (of_nat (length enc))) @ enc"

lemma length_wire_frame [simp]: "length (wire_frame enc) = 4 + length enc"
  by (simp add: wire_frame_def)

text \<open>What \<open>WriteFrame\<close> sends for a payload: compress, then encrypt.\<close>

definition sealed :: "zstd_lib \<Rightarrow> nat \<Rightarrow> (nat \<Rightarrow> int) \<Rightarrow> bytes \<Rightarrow> bytes \<Rightarrow> bool" where
  "sealed z mem dis d enc \<longleftrightarrow>
     (\<exists>packed. CompressString z mem DEFAULT d [] = Inr (True, packed) \<and> Encrypt dis packed [] = Inr (True, enc))"

lemma WriteFrame_sealed:
  "sealed z mem dis d enc \<Longrightarrow> WriteFrame z mem dis ws d c = Write ws (wire_frame enc) c"
  by (auto simp: sealed_def WriteFrame_def Let_def wire_frame_def byte_simps resize_def)

text \<open>
  A payload the frame format carries: it compresses, starts with a header holding the magic
  number, and its sealed form is at most \<open>limit\<close> bytes even at the compression bound.
\<close>

definition frame_ok :: "nat \<Rightarrow> zstd_lib \<Rightarrow> nat \<Rightarrow> bytes \<Rightarrow> bool" where
  "frame_ok limit z mem d \<longleftrightarrow>
     compressible z mem d \<and> sizeof_header \<le> length d \<and> magic_number (parse_header d) = MAGIC
     \<and> 4 * ((ZSTD_compressBound z (length d) + 34) div 3) \<le> limit"

interpretation wire: byte_layers "CompressString z mem level" "DecompressString z mem" "compressible z mem"
    "Encrypt dis" Decrypt "\<lambda>d. d \<noteq> []"
  for z mem level dis
proof unfold_locales
  fix d out c
  assume "compressible z mem d" and "CompressString z mem level d out = Inr (True, c)"
  with zstd.put_get [of z mem d level] show "c \<noteq> []" by auto
qed

lemma sealed_ex:
  assumes "frame_ok limit z mem d"
  shows "\<exists>enc. sealed z mem dis d enc"
proof -
  have "compressible z mem d" using assms by (simp add: frame_ok_def)
  from wire.layers_roundtrip [OF this] show ?thesis
    unfolding sealed_def by meson
qed

lemma sealed_open:
  assumes "compressible z mem d" and "sealed z mem dis d enc"
  shows "\<exists>packed. Decrypt enc [] = Inr (True, packed) \<and> DecompressString z mem packed [] = Inr (True, d)"
proof -
  from wire.layers_roundtrip [OF assms(1), of DEFAULT dis] obtain c e where
    "CompressString z mem DEFAULT d [] = Inr (True, c)" "Encrypt dis c [] = Inr (True, e)"
    "Decrypt e [] = Inr (True, c)" "DecompressString z mem c [] = Inr (True, d)"
    by auto
  with assms(2) show ?thesis by (auto simp: sealed_def)
qed

lemma sealed_length:
  assumes "frame_ok limit z mem d" and "sealed z mem dis d enc"
  shows "length enc \<le> limit" and "0 < length enc"
proof -
  let ?b = "ZSTD_compressBound z (length d)"
  have "compressible z mem d" using assms(1) by (simp add: frame_ok_def)
  from CompressString_bound [OF this, of DEFAULT] assms(2) obtain c where
    c: "c \<noteq> []" "length c \<le> ?b" "Encrypt dis c [] = Inr (True, enc)"
    by (auto simp: sealed_def)
  then have "length enc = 4 * ((length c + 34) div 3)"
    by (auto simp: Encrypt_eq Base64Encode_eq length_base64_spec add_ac)
  moreover have "(length c + 34) div 3 \<le> (?b + 34) div 3"
    using c(2) by (intro div_le_mono) simp
  moreover have "4 * ((?b + 34) div 3) \<le> limit" using assms(1) by (simp add: frame_ok_def)
  ultimately show "length enc \<le> limit" by linarith
  show "0 < length enc" using \<open>length enc = _\<close> by simp
qed

lemma ExtractFrame_wire:
  assumes "read_buffer c = wire_frame enc @ rest" and "length enc \<le> MAX_FRAME_SIZE"
    and "Decrypt enc [] = Inr (True, packed)" and "DecompressString z mem packed [] = Inr (True, d)"
    and "sizeof_header \<le> length d" and "magic_number (parse_header d) = MAGIC"
  shows "ExtractFrame z mem c out = Inr (kComplete, d, c\<lparr>read_buffer := rest\<rparr>)"
proof -
  have "unat (of_nat (length enc) :: u32) = length enc"
    using assms(2) by (intro unat_of_nat_u32) (simp add: guard_simps)
  with assms show ?thesis
    by (simp add: ExtractFrame_def Let_def wire_frame_def byte_simps substr_def)
qed

lemma ExtractFrame_sealed:
  assumes "frame_ok MAX_FRAME_SIZE z mem d" and "sealed z mem dis d enc"
    and "read_buffer c = wire_frame enc @ rest"
  shows "ExtractFrame z mem c out = Inr (kComplete, d, c\<lparr>read_buffer := rest\<rparr>)"
proof -
  have "compressible z mem d" using assms(1) by (simp add: frame_ok_def)
  from sealed_open [OF this assms(2)] obtain packed where
    "Decrypt enc [] = Inr (True, packed)" "DecompressString z mem packed [] = Inr (True, d)" by blast
  moreover have "length enc \<le> MAX_FRAME_SIZE" using sealed_length(1) [OF assms(1,2)] .
  ultimately show ?thesis
    using assms(1,3) by (intro ExtractFrame_wire) (simp_all add: frame_ok_def)
qed


section \<open>The framing contract\<close>

text \<open>
  The abstract specification of \<open>ExtractFrame\<close>: what opening a ciphertext gives, and how a
  buffer is cut.
\<close>

definition open_frame :: "zstd_lib \<Rightarrow> nat \<Rightarrow> bytes \<Rightarrow> fault + bytes option" where
  "open_frame z mem ciphertext =
     (case Decrypt ciphertext [] of
        Inl e \<Rightarrow> Inl e
      | Inr (decrypted_ok, p) \<Rightarrow>
          if \<not> decrypted_ok then Inr None
          else case DecompressString z mem p [] of
            Inl e \<Rightarrow> Inl e
          | Inr (decompressed_ok, d) \<Rightarrow>
              if decompressed_ok \<and> sizeof_header \<le> length d \<and> magic_number (parse_header d) = MAGIC
              then Inr (Some d) else Inr None)"

definition announced :: "bytes \<Rightarrow> nat" where
  "announced b = unat (ntohl (of_le32 (take 4 b)))"

definition frame_cut :: "zstd_lib \<Rightarrow> nat \<Rightarrow> bytes \<Rightarrow> bytes cut" where
  "frame_cut z mem b =
     (if length b < 4 then Need
      else if announced b > MAX_FRAME_SIZE then Bad
      else if length b < 4 + announced b then Need
      else case open_frame z mem (substr b 4 (announced b)) of
        Inr (Some d) \<Rightarrow> Got d (drop (4 + announced b) b)
      | _ \<Rightarrow> Bad)"

lemma ExtractFrame_eq:
  "ExtractFrame z mem c out =
     (let b = read_buffer c in
      if length b < 4 then Inr (kIncomplete, out, c)
      else if announced b > MAX_FRAME_SIZE then Inr (kError, out, c)
      else if length b < 4 + announced b then Inr (kIncomplete, out, c)
      else case open_frame z mem (substr b 4 (announced b)) of
        Inl e \<Rightarrow> Inl e
      | Inr None \<Rightarrow> Inr (kError, out, c\<lparr>read_buffer := drop (4 + announced b) b\<rparr>)
      | Inr (Some d) \<Rightarrow> Inr (kComplete, d, c\<lparr>read_buffer := drop (4 + announced b) b\<rparr>))"
  by (auto simp: ExtractFrame_def open_frame_def announced_def Let_def split: sum.split prod.split bool.split)

lemma ExtractFrame_Need:
  "frame_cut z mem (read_buffer c) = Need \<Longrightarrow> ExtractFrame z mem c out = Inr (kIncomplete, out, c)"
  by (auto simp: ExtractFrame_eq frame_cut_def Let_def split: if_splits sum.splits option.splits)

lemma ExtractFrame_Got:
  "frame_cut z mem (read_buffer c) = Got d r \<Longrightarrow>
   ExtractFrame z mem c out = Inr (kComplete, d, c\<lparr>read_buffer := r\<rparr>)"
  by (auto simp: ExtractFrame_eq frame_cut_def Let_def split: if_splits sum.splits option.splits)

lemma ExtractFrame_Bad:
  "frame_cut z mem (read_buffer c) = Bad \<Longrightarrow>
   (\<exists>e. ExtractFrame z mem c out = Inl e) \<or>
   (\<exists>r. ExtractFrame z mem c out = Inr (kError, out, c\<lparr>read_buffer := r\<rparr>))"
  by (auto simp: ExtractFrame_eq frame_cut_def Let_def split: if_splits sum.splits option.splits
      intro: exI [of _ "read_buffer c"])

lemma announced_append: "4 \<le> length b \<Longrightarrow> announced (b @ s) = announced b"
  by (simp add: announced_def)

interpretation framing: incremental_parser "frame_cut z mem" for z mem
proof
  fix b f r s
  assume "frame_cut z mem b = Got f r"
  then show "frame_cut z mem (b @ s) = Got f (r @ s)"
    by (auto simp: frame_cut_def announced_append substr_def split: if_splits sum.splits option.splits)
next
  fix b s
  assume "frame_cut z mem b = Bad"
  then show "frame_cut z mem (b @ s) = Bad"
    by (auto simp: frame_cut_def announced_append substr_def split: if_splits sum.splits option.splits)
next
  fix b f r
  assume "frame_cut z mem b = Got f r"
  then show "length r < length b"
    by (auto simp: frame_cut_def split: if_splits sum.splits option.splits)
qed

lemma frame_cut_sealed:
  assumes "frame_ok MAX_FRAME_SIZE z mem d" and "sealed z mem dis d enc"
  shows "frame_cut z mem (wire_frame enc @ rest) = Got d rest"
proof -
  let ?c = "\<lparr>fd = 0, read_buffer = wire_frame enc @ rest, cstate = CONNECTED\<rparr>"
  have "ExtractFrame z mem ?c [] = Inr (kComplete, d, ?c\<lparr>read_buffer := rest\<rparr>)"
    by (rule ExtractFrame_sealed [OF assms]) simp
  then show ?thesis
    using ExtractFrame_Need [of z mem ?c "[]"] ExtractFrame_Bad [of z mem ?c "[]"]
      ExtractFrame_Got [of z mem ?c _ _ "[]"]
    by (cases "frame_cut z mem (wire_frame enc @ rest)") auto
qed

lemma drain_sealed:
  "list_all2 (\<lambda>d enc. frame_ok MAX_FRAME_SIZE z mem d \<and> (\<exists>dis. sealed z mem dis d enc)) ds encs \<Longrightarrow>
   drain (frame_cut z mem) (concat (map wire_frame encs)) = (ds, [], False)"
proof (induction ds encs rule: list_all2_induct)
  case Nil
  have "frame_cut z mem [] = Need" by (simp add: frame_cut_def)
  then show ?case by (simp add: framing.drain_simps(1))
next
  case (Cons d ds enc encs)
  then obtain dis where "frame_ok MAX_FRAME_SIZE z mem d" "sealed z mem dis d enc" by blast
  from frame_cut_sealed [OF this] Cons show ?case by (simp add: framing.drain_simps(3))
qed

section \<open>What reading does to the buffer\<close>

lemma Read_loop_Done:
  "Read_loop rs c = Done (b, c', rs') \<Longrightarrow>
   (\<exists>got. read_buffer c' = read_buffer c @ got)
   \<and> (length (read_buffer c) \<le> MAX_BUFFER_SIZE \<longrightarrow> length (read_buffer c') \<le> MAX_BUFFER_SIZE)
   \<and> fd c' = fd c \<and> cstate c' = (if b then cstate c else DISCONNECTED)"
proof (induction rs c rule: Read_loop.induct)
  case (4 buf rs c)
  consider "length buf = 0 \<or> length (read_buffer c) + length buf > MAX_BUFFER_SIZE"
    | "0 < length buf" "length (read_buffer c) + length buf \<le> MAX_BUFFER_SIZE" "length buf < READ_CHUNK"
    | "0 < length buf" "length (read_buffer c) + length buf \<le> MAX_BUFFER_SIZE" "\<not> length buf < READ_CHUNK"
    by linarith
  then show ?case
  proof cases
    case 1
    with 4(2) show ?thesis by (auto simp: Read_loop.simps(4) split: if_splits)
  next
    case 2
    with 4(2) show ?thesis by (auto simp: Read_loop.simps(4) Let_def)
  next
    case 3
    let ?c = "c\<lparr>read_buffer := read_buffer c @ buf\<rparr>"
    from 3 4(2) have "Read_loop rs ?c = Done (b, c', rs')" by (simp add: Read_loop.simps(4) Let_def)
    with 4(1) [of ?c] 3 show ?thesis by auto
  qed
qed auto

lemma Read_Done:
  assumes "Read rs c = Done (b, c', rs')"
  shows "\<exists>got. read_buffer c' = read_buffer c @ got"
    and "length (read_buffer c) \<le> MAX_BUFFER_SIZE \<Longrightarrow> length (read_buffer c') \<le> MAX_BUFFER_SIZE"
    and "fd c' = fd c" and "cstate c' = (if b then CONNECTED else DISCONNECTED)"
  using assms by (auto simp: Read_def split: if_splits dest: Read_loop_Done,
      metis (full_types) conn_state.exhaust)

lemma ReadWithTimeout_Done:
  "ReadWithTimeout ss rs c = Done (b, c', ss', rs') \<Longrightarrow> c' = c \<and> \<not> b \<or> (\<exists>rs'. Read rs c = Done (b, c', rs'))"
proof (induction ss)
  case Nil
  then show ?case by (subst (asm) ReadWithTimeout.simps) (simp split: if_splits)
next
  case (Cons s ss)
  then show ?case
    by (subst (asm) ReadWithTimeout.simps) (cases s; auto split: if_splits run.splits)
qed

lemma ExtractFrame_buffer:
  assumes "ExtractFrame z mem c out = Inr (st, d, c')"
  shows "\<exists>n. read_buffer c' = drop n (read_buffer c)" and "fd c' = fd c \<and> cstate c' = cstate c"
  using assms by (auto simp: ExtractFrame_eq Let_def split: if_splits sum.splits option.splits
      intro: exI [of _ 0])

section \<open>The life of a connection\<close>

text \<open>Everything the server and the client do with a \<open>Connection\<close> object, as steps.\<close>

inductive conn_step :: "zstd_lib \<Rightarrow> nat \<Rightarrow> connection \<Rightarrow> connection \<Rightarrow> bool" for z mem where
  step_read: "Read rs c = Done (b, c', rs') \<Longrightarrow> conn_step z mem c c'"
| step_read_timeout: "ReadWithTimeout ss rs c = Done (b, c', ss', rs') \<Longrightarrow> conn_step z mem c c'"
| step_extract: "ExtractFrame z mem c out = Inr (st, d, c') \<Longrightarrow> conn_step z mem c c'"
| step_write: "Write ws data c = Done (ok, out, c', ws') \<Longrightarrow> conn_step z mem c c'"
| step_close: "conn_step z mem c (Close c)"

definition conn_inv :: "connection \<Rightarrow> bool" where
  "conn_inv c \<longleftrightarrow> length (read_buffer c) \<le> MAX_BUFFER_SIZE \<and> (cstate c = CONNECTED \<longrightarrow> 0 \<le> fd c)"

lemma Write_state: "Write ws data c = Done (ok, out, c', ws') \<Longrightarrow> cstate c' = CONNECTED \<Longrightarrow> cstate c = CONNECTED"
  by (cases ok) (auto simp: Write_def split: if_splits dest!: Write_loop_Done)

interpretation conn: invariant_system "\<lambda>c. \<exists>f. c = new_connection f" "conn_step z mem" conn_inv for z mem
proof
  fix s assume "\<exists>f. s = new_connection f"
  then show "conn_inv s" by (auto simp: conn_inv_def new_connection_def split: if_splits)
next
  fix s t
  assume "conn_step z mem s t" and inv: "conn_inv s"
  then show "conn_inv t"
  proof cases
    case (step_read rs b rs')
    with inv Read_Done [OF step_read] show ?thesis
      by (auto simp: conn_inv_def Read_def split: if_splits)
  next
    case (step_read_timeout ss rs b ss' rs')
    from ReadWithTimeout_Done [OF this] inv show ?thesis
      by (auto simp: conn_inv_def Read_def split: if_splits dest: Read_loop_Done)
  next
    case (step_extract out st d)
    from ExtractFrame_buffer [OF this] inv show ?thesis by (auto simp: conn_inv_def)
  next
    case (step_write ws data ok out ws')
    from Write_Done [OF this] Write_state [OF this] inv show ?thesis by (auto simp: conn_inv_def)
  next
    case step_close
    with inv show ?thesis by (auto simp: conn_inv_def Close_def)
  qed
qed


section \<open>Properties\<close>

lemma length_request_image:
  "length (request_image r) = 24 + length (service_name r) + length (method_name r) + length (payload r)"
  by (simp add: request_image_def)

lemma length_response_image:
  "length (response_image r) = 28 + length (result_data r) + length (error_message r)"
  by (simp add: response_image_def)

text \<open>A message of \<open>n\<close> bytes whose compressed form fits the memory and the frame limit.\<close>

definition fits_wire :: "zstd_lib \<Rightarrow> nat \<Rightarrow> nat \<Rightarrow> bool" where
  "fits_wire z mem n \<longleftrightarrow> ZSTD_compressBound z n \<le> mem
     \<and> 4 * ((ZSTD_compressBound z n + 34) div 3) \<le> MAX_FRAME_SIZE"

lemma request_frame_ok:
  assumes "zstd_lossless z" and "request_fits mem r" and "fits_wire z mem (length (request_image r))"
  shows "frame_ok MAX_FRAME_SIZE z mem (request_image r)"
proof -
  have "request_image r \<noteq> []" using length_request_image [of r] by auto
  with assms show ?thesis
    by (auto simp: frame_ok_def compressible_def fits_wire_def request_fits_def length_request_image guard_simps)
       (simp_all add: request_image_def)
qed

lemma response_frame_ok:
  assumes "zstd_lossless z" and "response_fits mem r" and "fits_wire z mem (length (response_image r))"
  shows "frame_ok MAX_FRAME_SIZE z mem (response_image r)"
proof -
  have "response_image r \<noteq> []" using length_response_image [of r] by auto
  with assms show ?thesis
    by (auto simp: frame_ok_def compressible_def fits_wire_def response_fits_def length_response_image guard_simps)
       (simp_all add: response_image_def)
qed

lemma WriteFrame_completes:
  assumes "frame_ok MAX_FRAME_SIZE z mem d" and "cstate c = CONNECTED" and "no_error ws"
    and "4 + MAX_FRAME_SIZE \<le> taken ws"
  shows "\<exists>enc ws'. sealed z mem dis d enc \<and> WriteFrame z mem dis ws d c = Done (True, wire_frame enc, c, ws')"
proof -
  from sealed_ex [OF assms(1)] obtain enc where enc: "sealed z mem dis d enc" by blast
  have "length (wire_frame enc) \<le> taken ws"
    using sealed_length(1) [OF assms(1) enc] assms(4) by simp
  then obtain ws' where "Write_loop ws (wire_frame enc) 0 c = Done (True, wire_frame enc, c, ws')"
    using Write_loop_completes [OF assms(3), of "wire_frame enc" 0 c] by auto
  then have "WriteFrame z mem dis ws d c = Done (True, wire_frame enc, c, ws')"
    using assms(2) sealed_length(2) [OF assms(1) enc]
    by (simp add: WriteFrame_sealed [OF enc] Write_def wire_frame_def)
  with enc show ?thesis by blast
qed

text \<open>
  C9. A request crosses the wire: on a connected socket that takes the bytes, \<open>Write(request)\<close>
  returns true, and any connection whose receive buffer starts with the bytes written, whatever
  follows them, extracts one complete frame, keeps exactly what follows, and the frame
  deserializes to the request.
\<close>

theorem request_over_wire:
  assumes "zstd_lossless z" and "request_fits mem r" and "fits_wire z mem (length (request_image r))"
    and "cstate c = CONNECTED" and "no_error ws" and "4 + MAX_FRAME_SIZE \<le> taken ws"
  shows "\<exists>wire ws'. Write_request z mem dis ws r c = Done (True, wire, c, ws') \<and>
     (\<forall>d rest f old. read_buffer d = wire @ rest \<longrightarrow>
        (\<exists>s. ExtractFrame z mem d f = Inr (kComplete, s, d\<lparr>read_buffer := rest\<rparr>)
           \<and> RpcRequest_Deserialize s old = Inr (True, r)))"
proof -
  note ok = request_frame_ok [OF assms(1-3)]
  from WriteFrame_completes [OF ok assms(4-6)] obtain enc ws' where enc: "sealed z mem dis (request_image r) enc"
    and w: "WriteFrame z mem dis ws (request_image r) c = Done (True, wire_frame enc, c, ws')" by blast
  have "Write_request z mem dis ws r c = Done (True, wire_frame enc, c, ws')"
    by (simp add: Write_request_def RpcRequest_Serialize_eq [OF assms(2)] w)
  moreover have "RpcRequest_Deserialize (request_image r) old = Inr (True, r)" for old
    using request_codec.des_ser [OF assms(2)] by (simp add: RpcRequest_Serialize_eq [OF assms(2)])
  ultimately show ?thesis using ExtractFrame_sealed [OF ok enc] by blast
qed

theorem request_over_wire_witness:
  "\<exists>wire ws'. Write_request stored_zstd 1000 (\<lambda>i. int i) [Wr 20, Wr_again, Wr 16777300]
       \<lparr>sequence_id = 1, service_name = str ''S'', method_name = str ''m'', payload = str ''{}''\<rparr>
       (new_connection 5) = Done (True, wire, new_connection 5, ws') \<and>
     (\<forall>d rest f old. read_buffer d = wire @ rest \<longrightarrow>
        (\<exists>s. ExtractFrame stored_zstd 1000 d f = Inr (kComplete, s, d\<lparr>read_buffer := rest\<rparr>)
           \<and> RpcRequest_Deserialize s old = Inr (True,
              \<lparr>sequence_id = 1, service_name = str ''S'', method_name = str ''m'', payload = str ''{}''\<rparr>)))"
  by (rule request_over_wire)
     (simp_all add: stored_zstd_lossless request_fits_def fits_wire_def length_request_image
       new_connection_def no_error_def guard_simps, simp_all add: stored_zstd_def)

text \<open>
  C10. A response crosses the wire in the other direction under the same conditions.
\<close>

theorem response_over_wire:
  assumes "zstd_lossless z" and "response_fits mem r" and "fits_wire z mem (length (response_image r))"
    and "cstate c = CONNECTED" and "no_error ws" and "4 + MAX_FRAME_SIZE \<le> taken ws"
  shows "\<exists>wire ws'. Write_response z mem dis ws r c = Done (True, wire, c, ws') \<and>
     (\<forall>d rest f old. read_buffer d = wire @ rest \<longrightarrow>
        (\<exists>s. ExtractFrame z mem d f = Inr (kComplete, s, d\<lparr>read_buffer := rest\<rparr>)
           \<and> RpcResponse_Deserialize s old = Inr (True, r)))"
proof -
  note ok = response_frame_ok [OF assms(1-3)]
  from WriteFrame_completes [OF ok assms(4-6)] obtain enc ws' where enc: "sealed z mem dis (response_image r) enc"
    and w: "WriteFrame z mem dis ws (response_image r) c = Done (True, wire_frame enc, c, ws')" by blast
  have "Write_response z mem dis ws r c = Done (True, wire_frame enc, c, ws')"
    by (simp add: Write_response_def RpcResponse_Serialize_eq [OF assms(2)] w)
  moreover have "RpcResponse_Deserialize (response_image r) old = Inr (True, r)" for old
    using RpcResponse_Deserialize_image [OF assms(2)] .
  ultimately show ?thesis using ExtractFrame_sealed [OF ok enc] by blast
qed

theorem response_over_wire_witness:
  "\<exists>wire ws'. Write_response stored_zstd 1000 (\<lambda>i. 255) [Wr 16777300]
       \<lparr>sequence_id = 1, result_data = str ''R'', error_message = str ''Success'', response_code = 0\<rparr>
       (new_connection 5) = Done (True, wire, new_connection 5, ws') \<and>
     (\<forall>d rest f old. read_buffer d = wire @ rest \<longrightarrow>
        (\<exists>s. ExtractFrame stored_zstd 1000 d f = Inr (kComplete, s, d\<lparr>read_buffer := rest\<rparr>)
           \<and> RpcResponse_Deserialize s old = Inr (True,
              \<lparr>sequence_id = 1, result_data = str ''R'', error_message = str ''Success'', response_code = 0\<rparr>)))"
  by (rule response_over_wire)
     (simp_all add: stored_zstd_lossless response_fits_def fits_wire_def length_response_image
       new_connection_def no_error_def guard_simps, simp_all add: stored_zstd_def)

text \<open>
  C27. In every reachable state of a connection the receive buffer holds at most
  \<open>MAX_BUFFER_SIZE\<close> bytes; so a frame is delivered only if its ciphertext has at most
  \<open>MAX_BUFFER_SIZE - 4\<close> bytes, although \<open>ExtractFrame\<close> accepts announcements of up to the
  sixteen times larger \<open>MAX_FRAME_SIZE\<close>.
\<close>

theorem reachable_frame_bound:
  assumes "reach (\<lambda>c. \<exists>f. c = new_connection f) (conn_step z mem) c"
    and "ExtractFrame z mem c out = Inr (kComplete, d, c')"
  shows "length (read_buffer c) \<le> MAX_BUFFER_SIZE \<and> 4 + announced (read_buffer c) \<le> MAX_BUFFER_SIZE"
proof -
  from conn.reach_inv [OF assms(1)] have "length (read_buffer c) \<le> MAX_BUFFER_SIZE"
    by (simp add: conn_inv_def)
  moreover have "4 + announced (read_buffer c) \<le> length (read_buffer c)"
    using assms(2) by (auto simp: ExtractFrame_eq Let_def split: if_splits)
  ultimately show ?thesis by linarith
qed


theorem reachable_frame_bound_witness:
  "\<exists>c d c'. reach (\<lambda>c. \<exists>f. c = new_connection f) (conn_step stored_zstd 1000) c
     \<and> ExtractFrame stored_zstd 1000 c [] = Inr (kComplete, d, c')
     \<and> 4 + announced (read_buffer c) \<le> MAX_BUFFER_SIZE"
proof -
  let ?r = "\<lparr>sequence_id = 1, service_name = str ''S'', method_name = str ''m'', payload = str ''{}''\<rparr>"
  have ok: "frame_ok 200 stored_zstd 1000 (request_image ?r)"
    using request_frame_ok [OF stored_zstd_lossless, of 1000 ?r]
    by (simp add: frame_ok_def request_fits_def fits_wire_def length_request_image guard_simps)
       (simp add: stored_zstd_def)
  then have ok': "frame_ok MAX_FRAME_SIZE stored_zstd 1000 (request_image ?r)"
    by (simp add: frame_ok_def guard_simps)
  obtain enc where enc: "sealed stored_zstd 1000 (\<lambda>_. 0) (request_image ?r) enc"
    using sealed_ex [OF ok] by blast
  let ?c = "\<lparr>fd = 5, read_buffer = wire_frame enc, cstate = CONNECTED\<rparr>"
  have "Read [Rd (wire_frame enc)] (new_connection 5) = Done (True, ?c, [])"
    using sealed_length [OF ok enc]
    by (simp add: Read_def new_connection_def Read_loop.simps(4) Let_def guard_simps)
  then have r: "reach (\<lambda>c. \<exists>f. c = new_connection f) (conn_step stored_zstd 1000) ?c"
    by (blast intro: reach_step reach_init step_read)
  have x: "ExtractFrame stored_zstd 1000 ?c [] = Inr (kComplete, request_image ?r, ?c\<lparr>read_buffer := []\<rparr>)"
    by (rule ExtractFrame_sealed [OF ok' enc]) simp
  from reachable_frame_bound [OF r x] r x show ?thesis by blast
qed

text \<open>
  \<open>Write\<close> sends all or gives up: the bytes on the wire are a prefix of the data; true means
  all of them and an unchanged connection; false means that the connection is disconnected, or
  that there was nothing to write.
\<close>

theorem write_all_or_disconnect:
  assumes "Write ws data c = Done (ok, out, c', ws')"
  shows "(\<exists>n. out = take n data) \<and> (ok \<longrightarrow> out = data \<and> c' = c)
     \<and> (\<not> ok \<longrightarrow> data = [] \<or> cstate c' = DISCONNECTED)"
  using Write_Done [OF assms] by blast

theorem write_all_or_disconnect_witness:
  "Write [Wr 2, Wr_error 104] [1, 2, 3] (new_connection 5)
      = Done (False, [1, 2], (new_connection 5)\<lparr>cstate := DISCONNECTED\<rparr>, [])
   \<and> (\<exists>n. [1, 2] = take n [1, 2, 3 :: byte])"
proof -
  have w: "Write [Wr 2, Wr_error 104] [1, 2, 3] (new_connection 5)
      = Done (False, [1, 2], (new_connection 5)\<lparr>cstate := DISCONNECTED\<rparr>, [])"
    by (simp add: Write_def new_connection_def Write_loop.simps)
  from write_all_or_disconnect [OF w] w show ?thesis by simp
qed

text \<open>
  The timeout of \<open>ReadWithTimeout\<close> does not bound the call: it covers the first \<open>select\<close>
  only. When a blocking socket (the client never sets \<open>O_NONBLOCK\<close>) delivers exactly a full
  chunk of 4096 bytes, \<open>Read\<close> calls \<open>::read\<close> again and blocks for as long as the peer is silent.
\<close>

theorem full_chunk_blocks_client:
  assumes "cstate c = CONNECTED" and "0 \<le> fd c" and "fd c < FD_SETSIZE"
    and "length buf = READ_CHUNK" and "length (read_buffer c) + READ_CHUNK \<le> MAX_BUFFER_SIZE"
  shows "ReadWithTimeout (Sel_ready # ss) [Rd buf] c = Blocked"
  using assms by (simp add: ReadWithTimeout.simps Read_def Read_loop.simps(4) Let_def guard_simps)

theorem full_chunk_blocks_client_witness:
  "ReadWithTimeout [Sel_ready] [Rd (replicate 4096 0)] (new_connection 5) = Blocked"
  by (rule full_chunk_blocks_client) (simp_all add: new_connection_def guard_simps)

text \<open>
  What can go wrong inside \<open>ExtractFrame\<close>, on any buffer a peer may have filled: nothing but
  an allocation that fails, because the content size or the size the decompressor reports is
  more than the process can hold. This exception leaves \<open>ExtractFrame\<close>.
\<close>

theorem extract_fault_is_allocation:
  assumes "ExtractFrame z mem c out = Inl e"
  shows "e = Bad_alloc \<and> (\<exists>p. p \<noteq> [] \<and> (mem < ZSTD_getFrameContentSize z p \<or>
     (\<exists>buf. mem < snd (ZSTD_decompress z buf p))))"
proof -
  obtain ct where ct: "open_frame z mem ct = Inl e"
    using assms by (auto simp: ExtractFrame_eq Let_def split: if_splits sum.splits option.splits)
  obtain b p where "Decrypt ct [] = Inr (b, p)" using Decrypt_result [of ct "[]"] by blast
  with ct have "DecompressString z mem p [] = Inl e"
    by (auto simp: open_frame_def split: if_splits sum.splits)
  then show ?thesis
    by (auto simp: DecompressString_def resize_or_throw_def Let_def split: if_splits prod.splits)
       (metis snd_conv)+
qed

theorem extract_fault_is_allocation_witness:
  "ExtractFrame (stored_zstd\<lparr>ZSTD_getFrameContentSize := \<lambda>_. 2 ^ 60\<rparr>) (2 ^ 40)
     \<lparr>fd = 5, read_buffer = wire_frame (replicate 48 65), cstate = CONNECTED\<rparr> [] = Inl Bad_alloc"
proof -
  let ?z = "stored_zstd\<lparr>ZSTD_getFrameContentSize := \<lambda>_. 2 ^ 60\<rparr>"
  let ?c = "\<lparr>fd = 5, read_buffer = wire_frame (replicate 48 65), cstate = CONNECTED\<rparr>"
  let ?ct = "replicate 48 65 :: bytes"
  have "data_chars ?ct = 48" by (simp add: takeWhile_replicate)
  then obtain p where p: "Decrypt ?ct [] = Inr (True, p)" "length p = length (Base64Decode ?ct) - 32"
    using Decrypt_result [of ?ct "[]"] by auto
  then have "p \<noteq> []" using \<open>data_chars ?ct = 48\<close> by (auto simp: length_Base64Decode)
  then have "DecompressString ?z (2 ^ 40) p [] = Inl Bad_alloc"
    by (intro DecompressString_throws) (simp_all add: stored_zstd_def)
  moreover have "announced (read_buffer ?c) = 48" "substr (read_buffer ?c) 4 48 = ?ct"
    by (simp_all add: announced_def wire_frame_def byte_simps substr_def unat_of_nat_u32)
  ultimately obtain e where "ExtractFrame ?z (2 ^ 40) ?c [] = Inl e"
    using p(1) by (auto simp: ExtractFrame_eq Let_def open_frame_def guard_simps)
  then show ?thesis using extract_fault_is_allocation by blast
qed

end
