(* ===== verification/Socket_Reads.thy ===== *)
theory Socket_Reads
  imports Connection
begin

text \<open>
  What one call of \<open>Connection::Read\<close> does with all that waits in a socket: the loop reads 4096
  bytes at a time and ends with the first short read, with \<open>EAGAIN\<close>, or with the end of the
  stream. The event loop is edge-triggered, so what one \<open>Read\<close> leaves behind is not announced again.
\<close>

section \<open>The reads a waiting socket gives\<close>

text \<open>The bytes that wait, in the pieces in which \<open>read\<close> with a buffer of 4096 bytes returns them.\<close>

function pieces :: "bytes \<Rightarrow> bytes list" where
  "pieces pending = (if pending = [] then [] else take READ_CHUNK pending # pieces (drop READ_CHUNK pending))"
  by pat_completeness auto
termination
  by (relation "measure length") (auto simp: guard_simps)

declare pieces.simps [simp del]

lemma pieces_simps [simp]:
  "pieces [] = []"
  "pending \<noteq> [] \<Longrightarrow> length pending < READ_CHUNK \<Longrightarrow> pieces pending = [pending]"
  by (simp_all add: pieces.simps)

text \<open>
  \<open>fin\<close>: the peer has closed its side. Once the bytes are read, a non-blocking socket answers with
  the end of the stream then, else with \<open>EAGAIN\<close>.
\<close>

definition socket_reads :: "bytes \<Rightarrow> bool \<Rightarrow> read_result list" where
  "socket_reads pending fin = map Rd (pieces pending) @ [if fin then Rd [] else Rd_again]"

lemma Read_loop_Rd:
  "chunk \<noteq> [] \<Longrightarrow> Read_loop (Rd chunk # rs) c =
     (if length (read_buffer c) + length chunk > MAX_BUFFER_SIZE then Done (False, c\<lparr>cstate := DISCONNECTED\<rparr>, rs)
      else if length chunk < READ_CHUNK then Done (True, c\<lparr>read_buffer := read_buffer c @ chunk\<rparr>, rs)
      else Read_loop rs (c\<lparr>read_buffer := read_buffer c @ chunk\<rparr>))"
  by (simp add: Read_loop.simps(4) Let_def)

text \<open>The last piece is short unless the number of bytes is a multiple of 4096.\<close>

lemma Read_loop_pieces:
  "length (read_buffer c) + length pending \<le> MAX_BUFFER_SIZE \<Longrightarrow>
   Read_loop (map Rd (pieces pending) @ rs) c =
     (let c' = c\<lparr>read_buffer := read_buffer c @ pending\<rparr> in
      if READ_CHUNK dvd length pending then Read_loop rs c' else Done (True, c', rs))"
proof (induction "length pending" arbitrary: pending c rule: less_induct)
  case less
  show ?case
  proof (cases "pending = []")
    case False
    let ?t = "take READ_CHUNK pending" and ?d = "drop READ_CHUNK pending"
    have t: "?t \<noteq> []" using False by (simp add: guard_simps)
    show ?thesis
    proof (cases "length pending < READ_CHUNK")
      case True
      with False have "\<not> READ_CHUNK dvd length pending" by (auto dest: dvd_imp_le)
      with True False less.prems show ?thesis by (simp add: Read_loop_Rd)
    next
      case F: False
      let ?c = "c\<lparr>read_buffer := read_buffer c @ ?t\<rparr>"
      have len: "length ?t = READ_CHUNK" "length ?d = length pending - READ_CHUNK" "length ?d < length pending"
        using F False by (simp_all add: guard_simps)
      have "length (read_buffer ?c) + length ?d \<le> MAX_BUFFER_SIZE" using less.prems len(1,2) F by simp
      note ih = less.hyps [OF len(3) this]
      have "READ_CHUNK dvd length ?d \<longleftrightarrow> READ_CHUNK dvd length pending"
        using F by (simp add: dvd_minus_self)
      moreover have "read_buffer ?c @ ?d = read_buffer c @ pending" by simp
      ultimately show ?thesis
        using ih t len(1) F False less.prems by (simp add: pieces.simps [of pending] Read_loop_Rd Let_def)
    qed
  qed simp
qed

lemma Read_loop_overflow:
  "length (read_buffer c) \<le> MAX_BUFFER_SIZE \<Longrightarrow> MAX_BUFFER_SIZE < length (read_buffer c) + length pending \<Longrightarrow>
   \<exists>c' rs'. Read_loop (map Rd (pieces pending) @ rs) c = Done (False, c', rs')"
proof (induction "length pending" arbitrary: pending c rule: less_induct)
  case less
  let ?t = "take READ_CHUNK pending" and ?d = "drop READ_CHUNK pending"
  let ?c = "c\<lparr>read_buffer := read_buffer c @ ?t\<rparr>"
  have ne: "pending \<noteq> []" "?t \<noteq> []" using less.prems by (auto simp: guard_simps)
  show ?case
  proof (cases "MAX_BUFFER_SIZE < length (read_buffer c) + length ?t")
    case True
    with ne show ?thesis by (simp add: pieces.simps [of pending] Read_loop_Rd)
  next
    case False
    with less.prems have F: "READ_CHUNK < length pending" by (simp add: min_def split: if_splits)
    with less.prems False have "length ?d < length pending" "length (read_buffer ?c) \<le> MAX_BUFFER_SIZE"
      "MAX_BUFFER_SIZE < length (read_buffer ?c) + length ?d" by (simp_all add: guard_simps)
    from less.hyps [OF this] obtain c' rs' where
      "Read_loop (map Rd (pieces ?d) @ rs) ?c = Done (False, c', rs')" by blast
    with ne False F show ?thesis by (simp add: pieces.simps [of pending] Read_loop_Rd)
  qed
qed

lemma Read_socket:
  assumes "cstate c = CONNECTED" and "length (read_buffer c @ pending) \<le> MAX_BUFFER_SIZE"
  shows "Read (socket_reads pending fin) c =
       (let c' = c\<lparr>read_buffer := read_buffer c @ pending\<rparr> in
        if \<not> READ_CHUNK dvd length pending then Done (True, c', [if fin then Rd [] else Rd_again])
        else if fin then Done (False, c'\<lparr>cstate := DISCONNECTED\<rparr>, []) else Done (True, c', []))"
  using assms Read_loop_pieces [of c pending "[if fin then Rd [] else Rd_again]"]
  by (simp add: Read_def socket_reads_def Read_loop.simps(4) Let_def)

section \<open>Property\<close>

text \<open>
  C28. One \<open>Read\<close> on a connected non-blocking socket takes all bytes that wait there, or finds
  that they exceed the receive buffer and disconnects; so with edge triggering no data is left
  behind. The end of the stream is another matter: it is seen only when the bytes before it are a
  multiple of 4096, then \<open>Read\<close> fails although it has just received them; else it stays unread, the
  connection still counts as connected, and nothing will announce it again. On a blocking socket, as
  the client's, \<open>Read\<close> returns with all that waits, unless that is a multiple of 4096 bytes: then it
  waits for more, whatever timeout \<open>ReadWithTimeout\<close> was given.
\<close>

theorem read_takes_all:
  assumes "cstate c = CONNECTED" and "length (read_buffer c) \<le> MAX_BUFFER_SIZE"
  shows "if MAX_BUFFER_SIZE < length (read_buffer c) + length pending
     then \<exists>c' rs. Read (socket_reads pending fin) c = Done (False, c', rs) \<and> cstate c' = DISCONNECTED
     else let c' = c\<lparr>read_buffer := read_buffer c @ pending\<rparr> in
       Read (socket_reads pending fin) c =
         (if \<not> READ_CHUNK dvd length pending then Done (True, c', [if fin then Rd [] else Rd_again])
          else if fin then Done (False, c'\<lparr>cstate := DISCONNECTED\<rparr>, []) else Done (True, c', []))
       \<and> Read (map Rd (pieces pending)) c =
         (if \<not> READ_CHUNK dvd length pending then Done (True, c', []) else Blocked)"
proof (cases "MAX_BUFFER_SIZE < length (read_buffer c) + length pending")
  case True
  from Read_loop_overflow [OF assms(2) this, of "[if fin then Rd [] else Rd_again]"] obtain c' rs where
    "Read (socket_reads pending fin) c = Done (False, c', rs)"
    using assms(1) by (auto simp: Read_def socket_reads_def)
  with True Read_Done(4) [OF this] show ?thesis by auto
next
  case False
  with Read_loop_pieces [of c pending "[]"] assms(1) have "Read (map Rd (pieces pending)) c =
     (if \<not> READ_CHUNK dvd length pending then Done (True, c\<lparr>read_buffer := read_buffer c @ pending\<rparr>, []) else Blocked)"
    by (simp add: Read_def Let_def Read_loop.simps(1))
  with Read_socket [OF assms(1), of pending fin] False show ?thesis by (simp add: Let_def)
qed

theorem read_takes_all_witness:
  "Read (socket_reads [1, 2, 3] True) (new_connection 5)
     = Done (True, (new_connection 5)\<lparr>read_buffer := [1, 2, 3]\<rparr>, [Rd []])
   \<and> Read (socket_reads (replicate 4096 0) True) (new_connection 5)
     = Done (False, \<lparr>fd = 5, read_buffer = replicate 4096 0, cstate = DISCONNECTED\<rparr>, [])
   \<and> Read (map Rd (pieces (replicate 4096 0))) (new_connection 5) = Blocked"
proof -
  have "\<not> (4096 :: nat) dvd Suc (Suc (Suc 0))" by (auto dest: dvd_imp_le)
  with read_takes_all [of "new_connection 5" "[1, 2, 3]" True] read_takes_all [of "new_connection 5" "replicate 4096 0" True]
  show ?thesis by (simp add: new_connection_def guard_simps Let_def)
qed

end
