(* ===== verification/Connection_Manager.thy ===== *)
theory Connection_Manager
  imports Connection
begin

text \<open>
  \<open>rpc_src/network/connection_manager.h\<close> and \<open>connection_manager.cpp\<close>: the table of live
  connections. A \<open>shared_ptr<Connection>\<close> is a reference \<open>conn_ref\<close> into the heap of connection
  objects, since the table, the event loop and the worker threads share the objects. Each
  operation runs under the manager's mutex, so it is one atomic function on the table.
\<close>

type_synonym conn_ref = nat
type_synonym conn_heap = "conn_ref \<Rightarrow> connection"
type_synonym conn_table = "int \<rightharpoonup> conn_ref"

definition AddConnection :: "conn_heap \<Rightarrow> conn_ref \<Rightarrow> conn_table \<Rightarrow> conn_table" where
  "AddConnection h conn m = m(fd (h conn) \<mapsto> conn)"

definition Manager_RemoveConnection :: "int \<Rightarrow> conn_table \<Rightarrow> conn_table" where
  "Manager_RemoveConnection f m = m(f := None)"

definition GetConnection :: "conn_table \<Rightarrow> int \<Rightarrow> conn_ref option" where
  "GetConnection m f = m f"

definition GetConnectionCount :: "conn_table \<Rightarrow> nat" where
  "GetConnectionCount m = card (dom m)"

interpretation connections: keyed_store GetConnection "\<lambda>k v. AddConnection (\<lambda>_. new_connection k) v"
    Manager_RemoveConnection dom
  by unfold_locales
     (auto simp: GetConnection_def AddConnection_def Manager_RemoveConnection_def new_connection_def)

text \<open>The table only depends on the descriptor of the object added.\<close>

lemma AddConnection_fd: "fd (h conn) = k \<Longrightarrow> AddConnection h conn m = AddConnection (\<lambda>_. new_connection k) conn m"
  by (simp add: AddConnection_def new_connection_def)

text \<open>
  The connection table behaves as a map: a connection added is found under its descriptor
  and no other entry changes; a removed descriptor is not found; the count follows the keys.
\<close>

theorem connection_table_laws:
  assumes "finite (dom m)"
  shows "GetConnection (AddConnection h conn m) f = (if f = fd (h conn) then Some conn else GetConnection m f)
     \<and> GetConnection (Manager_RemoveConnection g m) f = (if f = g then None else GetConnection m f)
     \<and> (GetConnection m (fd (h conn)) = None \<longrightarrow>
          GetConnectionCount (AddConnection h conn m) = Suc (GetConnectionCount m))
     \<and> (GetConnection m g \<noteq> None \<longrightarrow>
          GetConnectionCount (Manager_RemoveConnection g m) = GetConnectionCount m - 1)"
proof -
  have add: "AddConnection h conn m = AddConnection (\<lambda>_. new_connection (fd (h conn))) conn m"
    by (rule AddConnection_fd) simp
  show ?thesis
    unfolding add GetConnectionCount_def
    using assms
    by (simp add: connections.get_put connections.get_del connections.card_put connections.card_del)
qed

theorem connection_table_laws_witness:
  "GetConnection (AddConnection (\<lambda>_. new_connection 5) 0 Map.empty) 5 = Some 0
   \<and> GetConnectionCount (AddConnection (\<lambda>_. new_connection 5) 0 Map.empty) = 1"
  using connection_table_laws [of "Map.empty" "\<lambda>_. new_connection 5" 0 5 5]
  by (simp add: new_connection_def GetConnection_def GetConnectionCount_def)

end
