(* ===== verification/Json_Interface.thy ===== *)
theory Json_Interface
  imports Prelude "HOL-Library.AList"
begin

text \<open>
  nlohmann::json is third-party code: a parameter of the model. \<open>'j\<close> is its value type and the
  record holds the operations the program uses; \<open>None\<close> is the exception the operation throws.
  \<open>json_value_str j k d\<close>, \<open>json_value_int j k d\<close> and \<open>json_value_u16 j k d\<close> are \<open>j.value(k, d)\<close>
  for a string, an \<open>int\<close> and a \<open>uint16_t\<close> default; \<open>json_set j k s\<close> and \<open>json_set_int j k i\<close> are \<open>j[k] = s\<close> and \<open>j[k] = i\<close>
  (\<open>json_set_long\<close> for a 64-bit integer); \<open>json_at j k\<close> is \<open>j[k]\<close> for a key the
  program has found before; \<open>json_elements\<close> are the values a range-for visits.
\<close>

record 'j json_ops =
  json_parse :: "bytes \<Rightarrow> 'j option"
  json_dump :: "'j \<Rightarrow> bytes option"
  json_null :: "'j"
  json_empty :: "'j \<Rightarrow> bool"
  json_contains :: "'j \<Rightarrow> bytes \<Rightarrow> bool"
  json_at :: "'j \<Rightarrow> bytes \<Rightarrow> 'j"
  json_elements :: "'j \<Rightarrow> 'j list"
  json_set :: "'j \<Rightarrow> bytes \<Rightarrow> bytes \<Rightarrow> 'j option"
  json_set_int :: "'j \<Rightarrow> bytes \<Rightarrow> u32 \<Rightarrow> 'j option"
  json_set_long :: "'j \<Rightarrow> bytes \<Rightarrow> u64 \<Rightarrow> 'j option"
  json_value_str :: "'j \<Rightarrow> bytes \<Rightarrow> bytes \<Rightarrow> bytes option"
  json_value_int :: "'j \<Rightarrow> bytes \<Rightarrow> u32 \<Rightarrow> u32 option"
  json_value_u16 :: "'j \<Rightarrow> bytes \<Rightarrow> u16 \<Rightarrow> u16 option"
  json_get_str :: "'j \<Rightarrow> bytes option"
  json_get_u16 :: "'j \<Rightarrow> u16 option"

text \<open>
  A concrete instance: values are strings, integers, arrays and objects; the only texts it
  parses and prints are strings without quotes, read as the object with that \<open>message\<close>.
\<close>

datatype sample_json = SNull | SStr bytes | SInt u32 | SLong u64 | SArr "sample_json list" | SObj "(bytes \<times> sample_json) list"

fun sample_lookup :: "sample_json \<Rightarrow> bytes \<Rightarrow> sample_json option" where
  "sample_lookup (SObj kvs) k = map_of kvs k"
| "sample_lookup _ k = None"

fun sample_set :: "sample_json \<Rightarrow> bytes \<Rightarrow> sample_json \<Rightarrow> sample_json option" where
  "sample_set SNull k v = Some (SObj [(k, v)])"
| "sample_set (SObj kvs) k v = Some (SObj (AList.update k v kvs))"
| "sample_set _ k v = None"

fun sample_str :: "sample_json \<Rightarrow> bytes option" where
  "sample_str (SStr s) = Some s"
| "sample_str _ = None"

fun sample_int :: "sample_json \<Rightarrow> u32 option" where
  "sample_int (SInt n) = Some n"
| "sample_int _ = None"

fun sample_elements :: "sample_json \<Rightarrow> sample_json list" where
  "sample_elements (SArr xs) = xs"
| "sample_elements (SObj kvs) = map snd kvs"
| "sample_elements SNull = []"
| "sample_elements j = [j]"

fun sample_dump :: "sample_json \<Rightarrow> bytes option" where
  "sample_dump (SStr s) = Some s"
| "sample_dump (SObj kvs) = Some (concat (map fst kvs))"
| "sample_dump _ = Some []"

definition sample_ops :: "sample_json json_ops" where
  "sample_ops = \<lparr>
     json_parse = (\<lambda>s. if s = [] then None else Some (SObj [(str ''message'', SStr s)])),
     json_dump = sample_dump,
     json_null = SNull,
     json_empty = (\<lambda>j. j = SNull \<or> j = SObj [] \<or> j = SArr []),
     json_contains = (\<lambda>j k. sample_lookup j k \<noteq> None),
     json_at = (\<lambda>j k. case sample_lookup j k of None \<Rightarrow> SNull | Some v \<Rightarrow> v),
     json_elements = sample_elements,
     json_set = (\<lambda>j k s. sample_set j k (SStr s)),
     json_set_int = (\<lambda>j k i. sample_set j k (SInt i)),
     json_set_long = (\<lambda>j k i. sample_set j k (SLong i)),
     json_value_str = (\<lambda>j k d. case sample_lookup j k of None \<Rightarrow> Some d | Some v \<Rightarrow> sample_str v),
     json_value_int = (\<lambda>j k d. case sample_lookup j k of None \<Rightarrow> Some d | Some v \<Rightarrow> sample_int v),
     json_value_u16 = (\<lambda>j k d. case sample_lookup j k of None \<Rightarrow> Some d | Some v \<Rightarrow> map_option ucast (sample_int v)),
     json_get_str = sample_str,
     json_get_u16 = (\<lambda>j. map_option ucast (sample_int j))\<rparr>"

end
