(* ===== verification/Service_Manager.thy ===== *)
theory Service_Manager
  imports Contracts Json_Interface
begin

text \<open>
  \<open>rpc_src/service/service.h\<close>, \<open>service_manager.h\<close> and \<open>rpc_service.h\<close>: services, the table the
  server registers them in, and the Echo service. A service is a name and a handler from
  method, arguments and the old value of the result parameter; a handler may throw.
\<close>

record service =
  GetServiceName :: bytes
  HandleRequest :: "bytes \<Rightarrow> bytes \<Rightarrow> bytes \<Rightarrow> fault + bool \<times> bytes"

type_synonym service_table = "bytes \<rightharpoonup> service"

definition RegisterService :: "service option \<Rightarrow> service_table \<Rightarrow> bool \<times> service_table" where
  "RegisterService svc services =
     (case svc of
        None \<Rightarrow> (False, services)
      | Some s \<Rightarrow>
          let name = GetServiceName s in
          if services name \<noteq> None then (False, services)
          else (True, services(name \<mapsto> s)))"

definition ServiceManager_HandleRpcRequest ::
  "service_table \<Rightarrow> bytes \<Rightarrow> bytes \<Rightarrow> bytes \<Rightarrow> bytes \<Rightarrow> fault + bool \<times> bytes" where
  "ServiceManager_HandleRpcRequest services sname method args result =
     (case services sname of
        None \<Rightarrow> Inr (False, result)
      | Some s \<Rightarrow>
          (case HandleRequest s method args result of
             Inl e \<Rightarrow> Inl e
           | Inr (handled, result) \<Rightarrow> if \<not> handled then Inr (False, result) else Inr (True, result)))"

section \<open>The Echo service\<close>

text \<open>
  \<open>RpcService::HandleRequest\<close>: the statements of the \<open>try\<close> block in order; every exception of
  the JSON library is caught and makes the handler return false with the result unchanged.
\<close>

definition echo_body :: "'j json_ops \<Rightarrow> bytes \<Rightarrow> bytes option" where
  "echo_body J args =
     (case json_parse J args of None \<Rightarrow> None
      | Some request \<Rightarrow>
     (case json_set J (json_null J) (str ''echo'') (str ''hello from myrpc server'') of None \<Rightarrow> None
      | Some response \<Rightarrow>
     (case json_value_str J request (str ''message'') (str '''') of None \<Rightarrow> None
      | Some m \<Rightarrow>
     (case json_set J response (str ''received_message'') m of None \<Rightarrow> None
      | Some response \<Rightarrow> json_dump J response))))"

definition RpcService_HandleRequest :: "'j json_ops \<Rightarrow> bytes \<Rightarrow> bytes \<Rightarrow> bytes \<Rightarrow> fault + bool \<times> bytes" where
  "RpcService_HandleRequest J method_name args result =
     (if method_name \<noteq> str ''Echo'' then Inr (False, result)
      else case echo_body J args of
        None \<Rightarrow> Inr (False, result)
      | Some r \<Rightarrow> Inr (True, r))"

definition RpcService :: "'j json_ops \<Rightarrow> service" where
  "RpcService J = \<lparr>GetServiceName = str ''RpcService'', HandleRequest = RpcService_HandleRequest J\<rparr>"

section \<open>Properties\<close>

text \<open>
  Registration: it succeeds exactly for a service whose name is free; then requests for the
  name go to that service, those for other names are answered as before, and a service once
  registered is never replaced.
\<close>

theorem register_dispatch:
  "case RegisterService (Some s) t of (ok, t') \<Rightarrow>
     (ok \<longleftrightarrow> t (GetServiceName s) = None)
     \<and> (ok \<longrightarrow> ServiceManager_HandleRpcRequest t' (GetServiceName s) m a r = HandleRequest s m a r)
     \<and> (\<forall>n. n \<noteq> GetServiceName s \<or> \<not> ok \<longrightarrow>
          ServiceManager_HandleRpcRequest t' n m a r = ServiceManager_HandleRpcRequest t n m a r)"
  by (auto simp: RegisterService_def ServiceManager_HandleRpcRequest_def Let_def split: sum.split)

theorem register_dispatch_witness:
  "case RegisterService (Some (RpcService sample_ops)) Map.empty of (ok, t') \<Rightarrow> ok
     \<and> ServiceManager_HandleRpcRequest t' (str ''RpcService'') (str ''Echo'') [] [] = RpcService_HandleRequest sample_ops (str ''Echo'') [] []"
  using register_dispatch [where s = "RpcService sample_ops" and t = Map.empty and m = "str ''Echo''" and a = "[]" and r = "[]"]
  by (simp add: RpcService_def case_prod_unfold)

text \<open>
  The Echo service handles exactly the method \<open>Echo\<close>, never throws, and leaves the result
  untouched when it fails.
\<close>

theorem echo_total:
  "\<exists>ok r. RpcService_HandleRequest J m a old = Inr (ok, r)
     \<and> (ok \<longleftrightarrow> m = str ''Echo'' \<and> echo_body J a = Some r) \<and> (ok \<or> r = old)"
  by (cases "echo_body J a") (auto simp: RpcService_HandleRequest_def)

end
