(* ===== verification/Thread_Pool.thy ===== *)
theory Thread_Pool
  imports Prelude "HOL-Library.Multiset"
begin

text \<open>
  \<open>rpc_src/thread_pool/thread_pool.h\<close> and \<open>thread_pool.cpp\<close>: the priority thread pool. The pool
  is a state machine: what a thread does while it holds \<open>queue_mutex\<close> is one atomic step, and
  so is each update of the atomic counters outside the lock. Blocking on \<open>condition_\<close> is always
  with a timeout, so a worker or \<open>shutdown\<close> may re-examine the state at any time; blocking on
  \<open>not_full_condition_\<close> has no timeout, so the producers waiting there are part of the state and
  leave only when they are notified. Time is not modelled; whether the keep-alive time has passed
  is a choice of the environment.
\<close>

section \<open>Tasks and their priorities\<close>

datatype task_priority = LOW | NORMAL | HIGH

fun priority_value :: "task_priority \<Rightarrow> nat" where
  "priority_value LOW = 0"
| "priority_value NORMAL = 1"
| "priority_value HIGH = 2"

instantiation task_priority :: linorder
begin

definition less_eq_task_priority :: "task_priority \<Rightarrow> task_priority \<Rightarrow> bool" where
  "less_eq_task_priority a b \<longleftrightarrow> priority_value a \<le> priority_value b"

definition less_task_priority :: "task_priority \<Rightarrow> task_priority \<Rightarrow> bool" where
  "less_task_priority a b \<longleftrightarrow> priority_value a < priority_value b"

instance
proof
  fix x y :: task_priority
  show "x \<le> y \<Longrightarrow> y \<le> x \<Longrightarrow> x = y"
    by (cases x; cases y) (simp_all add: less_eq_task_priority_def)
qed (auto simp: less_eq_task_priority_def less_task_priority_def)

end

lemmas priority_order = less_eq_task_priority_def less_task_priority_def

text \<open>
  A task is what \<open>enqueue\<close> puts on the queue: a closure that runs a \<open>packaged_task\<close>. The body
  either returns or throws; \<open>packaged_task\<close> stores either outcome in the future, and its call
  operator returns normally in both cases.
\<close>

datatype body = Returns | Throws

datatype future = Pending | Has_value | Has_exception

record task =
  task_id :: nat
  priority :: task_priority
  task_body :: body

fun packaged_outcome :: "body \<Rightarrow> future" where
  "packaged_outcome Returns = Has_value"
| "packaged_outcome Throws = Has_exception"

text \<open>
  \<open>TaskWrapper::execute\<close> of such a task: the exception that escapes, if any, and the future.
\<close>

definition execute :: "task \<Rightarrow> fault option \<times> future" where
  "execute t = (None, packaged_outcome (task_body t))"

section \<open>The pool\<close>

datatype pool_state = RUNNING | PAUSED | SHUTTING_DOWN | STOPPED

text \<open>
  Where a worker is: at its wait, holding a task it has popped but not yet counted as active,
  executing, or gone.
\<close>

datatype worker = W_idle | W_picked task | W_running task | W_exited

record pool_config =
  core_threads :: nat
  max_threads :: nat
  max_queue_size :: nat

datatype shutdown_phase = No_shutdown | Draining | Joining

text \<open>
  The fields of the class, then the producers blocked in \<open>enqueue\<close> (\<open>waiting\<close>, and \<open>notified\<close>
  when they have been woken but not yet run), the phase of the one successful \<open>shutdown\<close> call,
  and the history of the queue (\<open>pushed\<close>, \<open>finished\<close>, \<open>discarded\<close>), which no operation reads.
\<close>

record pool =
  config :: pool_config
  tasks :: "task list"
  stop :: bool
  pstate :: pool_state
  workers :: "worker list"
  current_threads :: nat
  active_threads :: nat
  tasks_completed :: nat
  tasks_failed :: nat
  futures :: "nat \<Rightarrow> future"
  waiting :: "task list"
  notified :: "task list"
  phase :: shutdown_phase
  pushed :: "task list"
  finished :: "task list"
  discarded :: "task list"

definition ThreadPool_config :: "pool_config \<Rightarrow> pool" where
  "ThreadPool_config c = \<lparr>config = c, tasks = [], stop = False, pstate = RUNNING,
     workers = replicate (core_threads c) W_idle, current_threads = core_threads c,
     active_threads = 0, tasks_completed = 0, tasks_failed = 0, futures = (\<lambda>_. Pending),
     waiting = [], notified = [], phase = No_shutdown, pushed = [], finished = [], discarded = []\<rparr>"

definition ThreadPool_threads :: "nat \<Rightarrow> pool" where
  "ThreadPool_threads n = ThreadPool_config \<lparr>core_threads = n, max_threads = n, max_queue_size = 0\<rparr>"

section \<open>Submitting tasks\<close>

text \<open>\<open>spawned\<close>: whether creating the \<open>std::thread\<close> succeeds; if not, the count is rolled back.\<close>

definition adjust_thread_count :: "bool \<Rightarrow> pool \<Rightarrow> pool" where
  "adjust_thread_count spawned p =
     (if current_threads p < max_threads (config p) \<and> length (tasks p) > active_threads p
      then if spawned
           then p\<lparr>current_threads := current_threads p + 1, workers := workers p @ [W_idle]\<rparr>
           else p
      else p)"

datatype enqueue_result = Rejected | Waits | Accepted

definition enqueue :: "bool \<Rightarrow> task \<Rightarrow> pool \<Rightarrow> enqueue_result \<times> pool" where
  "enqueue spawned t p =
     (if stop p then (Rejected, p)
      else if max_queue_size (config p) > 0 \<and> \<not> length (tasks p) < max_queue_size (config p)
      then (Waits, p\<lparr>waiting := waiting p @ [t]\<rparr>)
      else let p = p\<lparr>tasks := t # tasks p, pushed := t # pushed p\<rparr> in
        (Accepted,
         if length (tasks p) > active_threads p \<and> current_threads p < max_threads (config p)
         then adjust_thread_count spawned p else p))"

section \<open>The worker thread\<close>

definition wake_condition :: "pool \<Rightarrow> bool" where
  "wake_condition p \<longleftrightarrow> stop p
     \<or> (pstate p = RUNNING \<and> tasks p \<noteq> []) \<or> (pstate p = SHUTTING_DOWN \<and> tasks p \<noteq> [])"

text \<open>\<open>std::priority_queue::top\<close>: some task of the greatest priority.\<close>

definition is_top :: "task \<Rightarrow> task list \<Rightarrow> bool" where
  "is_top t ts \<longleftrightarrow> t \<in> set ts \<and> (\<forall>u\<in>set ts. priority u \<le> priority t)"

text \<open>\<open>not_full_condition_.notify_one()\<close>: one waiting producer, whichever, is woken.\<close>

definition notify_one :: "pool \<Rightarrow> pool \<Rightarrow> bool" where
  "notify_one p q \<longleftrightarrow>
     (if waiting p = [] then q = p
      else \<exists>w\<in>set (waiting p). q = p\<lparr>waiting := remove1 w (waiting p), notified := w # notified p\<rparr>)"

definition take_task :: "nat \<Rightarrow> task \<Rightarrow> pool \<Rightarrow> pool" where
  "take_task i t p = p\<lparr>tasks := remove1 t (tasks p), workers := (workers p)[i := W_picked t]\<rparr>"

text \<open>
  The part of the loop under the lock, in the order of its tests: reclaim an idle non-core
  thread, exit when stopped with nothing queued, do nothing while paused, else take the top task.
  \<open>late\<close>: the keep-alive time has passed since the thread was last active.
\<close>

inductive worker_locked :: "bool \<Rightarrow> nat \<Rightarrow> pool \<Rightarrow> pool \<Rightarrow> bool" for late i p where
  reclaim: "\<not> wake_condition p \<Longrightarrow> current_threads p > core_threads (config p) \<Longrightarrow> late \<Longrightarrow>
     worker_locked late i p (p\<lparr>current_threads := current_threads p - 1, workers := (workers p)[i := W_exited]\<rparr>)"
| leave: "wake_condition p \<or> \<not> current_threads p > core_threads (config p) \<or> \<not> late \<Longrightarrow>
     stop p \<or> pstate p = STOPPED \<Longrightarrow> tasks p = [] \<Longrightarrow>
     worker_locked late i p (p\<lparr>workers := (workers p)[i := W_exited]\<rparr>)"
| pick: "wake_condition p \<or> \<not> current_threads p > core_threads (config p) \<or> \<not> late \<Longrightarrow>
     pstate p \<noteq> PAUSED \<Longrightarrow> is_top t (tasks p) \<Longrightarrow>
     (if max_queue_size (config p) > 0 \<and> length (tasks p) - 1 < max_queue_size (config p)
      then notify_one (take_task i t p) q else q = take_task i t p) \<Longrightarrow>
     worker_locked late i p q"

definition start_task :: "nat \<Rightarrow> task \<Rightarrow> pool \<Rightarrow> pool" where
  "start_task i t p = p\<lparr>workers := (workers p)[i := W_running t], active_threads := active_threads p + 1\<rparr>"

definition finish_task :: "nat \<Rightarrow> task \<Rightarrow> pool \<Rightarrow> pool" where
  "finish_task i t p =
     (case execute t of (escaped, outcome) \<Rightarrow>
        let p = p\<lparr>futures := (futures p)(task_id t := outcome), finished := t # finished p\<rparr>;
            p = (case escaped of None \<Rightarrow> p\<lparr>tasks_completed := tasks_completed p + 1\<rparr>
                 | Some e \<Rightarrow> p\<lparr>tasks_failed := tasks_failed p + 1\<rparr>)
        in p\<lparr>active_threads := active_threads p - 1, workers := (workers p)[i := W_idle]\<rparr>)"

section \<open>Control operations\<close>

definition pause :: "pool \<Rightarrow> pool" where
  "pause p = (if pstate p = RUNNING then p\<lparr>pstate := PAUSED\<rparr> else p)"

definition resume :: "pool \<Rightarrow> pool" where
  "resume p = (if pstate p = PAUSED then p\<lparr>pstate := RUNNING\<rparr> else p)"

text \<open>
  \<open>shutdown\<close> in three parts: the compare-and-exchange, with the value returned at once when it
  fails; the wait, which ends with the condition or with the timeout (\<open>return false\<close>); the join,
  after which it returns true.
\<close>

definition shutdown_begin :: "pool \<Rightarrow> bool option \<times> pool" where
  "shutdown_begin p =
     (if pstate p = RUNNING then (None, p\<lparr>pstate := SHUTTING_DOWN, phase := Draining\<rparr>)
      else (Some (pstate p = STOPPED), p))"

definition shutdown_stop :: "pool \<Rightarrow> pool" where
  "shutdown_stop p = p\<lparr>pstate := STOPPED, stop := True, phase := Joining\<rparr>"

definition shutdown_timeout :: "pool \<Rightarrow> bool \<times> pool" where
  "shutdown_timeout p = (False, p\<lparr>phase := No_shutdown\<rparr>)"

definition shutdown_returns_true :: "pool \<Rightarrow> bool" where
  "shutdown_returns_true p \<longleftrightarrow> phase p = Joining \<and> (\<forall>w\<in>set (workers p). w = W_exited)"

text \<open>
  \<open>stop_now\<close> under the lock. Destroying a queued task destroys its \<open>packaged_task\<close>, which stores
  \<open>broken_promise\<close> in the future.
\<close>

definition stop_now :: "pool \<Rightarrow> pool" where
  "stop_now p = p\<lparr>pstate := STOPPED, stop := True, tasks := [], discarded := tasks p @ discarded p,
     futures := (\<lambda>n. if n \<in> task_id ` set (tasks p) then Has_exception else futures p n)\<rparr>"

definition ThreadPool_destroy :: "pool \<Rightarrow> pool" where
  "ThreadPool_destroy p = (if pstate p \<noteq> STOPPED then stop_now p else p)"

definition get_state :: "pool \<Rightarrow> pool_state" where
  "get_state p = pstate p"

record stats =
  stat_completed :: nat
  stat_failed :: nat
  stat_active :: nat

definition get_stats :: "pool \<Rightarrow> stats" where
  "get_stats p = \<lparr>stat_completed = tasks_completed p, stat_failed = tasks_failed p,
                  stat_active = active_threads p\<rparr>"

definition pool_size :: "pool \<Rightarrow> nat" where
  "pool_size p = length (workers p)"

definition queue_size :: "pool \<Rightarrow> nat" where
  "queue_size p = length (tasks p)"

section \<open>The state machine\<close>

text \<open>What the worker threads do on their own, then every operation of the pool.\<close>

inductive worker_step :: "pool \<Rightarrow> pool \<Rightarrow> bool" where
  w_locked: "i < length (workers p) \<Longrightarrow> workers p ! i = W_idle \<Longrightarrow> worker_locked late i p q \<Longrightarrow> worker_step p q"
| w_start: "i < length (workers p) \<Longrightarrow> workers p ! i = W_picked t \<Longrightarrow> worker_step p (start_task i t p)"
| w_finish: "i < length (workers p) \<Longrightarrow> workers p ! i = W_running t \<Longrightarrow> worker_step p (finish_task i t p)"

inductive pool_step :: "pool \<Rightarrow> pool \<Rightarrow> bool" where
  s_enqueue: "pool_step p (snd (enqueue spawned t p))"
| s_wake: "t \<in> set (notified p) \<Longrightarrow>
     pool_step p (snd (enqueue spawned t (p\<lparr>notified := remove1 t (notified p)\<rparr>)))"
| s_worker: "worker_step p q \<Longrightarrow> pool_step p q"
| s_pause: "pool_step p (pause p)"
| s_resume: "pool_step p (resume p)"
| s_shutdown: "pool_step p (snd (shutdown_begin p))"
| s_drained: "phase p = Draining \<Longrightarrow> tasks p = [] \<Longrightarrow> active_threads p = 0 \<Longrightarrow> pool_step p (shutdown_stop p)"
| s_timeout: "phase p = Draining \<Longrightarrow> pool_step p (snd (shutdown_timeout p))"
| s_stop_now: "pool_step p (stop_now p)"

inductive_cases worker_lockedE: "worker_locked late i p q"


section \<open>Counting workers\<close>

fun held_by :: "worker \<Rightarrow> task multiset" where
  "held_by (W_picked t) = {#t#}"
| "held_by (W_running t) = {#t#}"
| "held_by _ = {#}"

fun is_running :: "worker \<Rightarrow> nat" where
  "is_running (W_running t) = 1"
| "is_running _ = 0"

fun is_alive :: "worker \<Rightarrow> nat" where
  "is_alive W_exited = 0"
| "is_alive _ = 1"

definition held :: "worker list \<Rightarrow> task multiset" where
  "held ws = sum_list (map held_by ws)"

definition running :: "worker list \<Rightarrow> nat" where
  "running ws = sum_list (map is_running ws)"

definition alive :: "worker list \<Rightarrow> nat" where
  "alive ws = sum_list (map is_alive ws)"

text \<open>Replacing one element changes a sum by the difference of the two values.\<close>

lemma sum_list_update_balance:
  "i < length ws \<Longrightarrow> sum_list (map f (ws[i := w])) + f (ws ! i) = sum_list (map f ws) + (f w :: 'b :: cancel_comm_monoid_add)"
proof (induction ws arbitrary: i)
  case (Cons v ws)
  show ?case
  proof (cases i)
    case (Suc j)
    with Cons.IH [of j] Cons.prems show ?thesis by (simp add: add.assoc)
  qed (simp add: add_ac)
qed simp

lemmas worker_balance =
  sum_list_update_balance [of _ _ held_by, folded held_def]
  sum_list_update_balance [of _ _ is_running, folded running_def]
  sum_list_update_balance [of _ _ is_alive, folded alive_def]

lemma count_append:
  "held (ws @ [W_idle]) = held ws" "running (ws @ [W_idle]) = running ws" "alive (ws @ [W_idle]) = Suc (alive ws)"
  by (simp_all add: held_def running_def alive_def)

lemma count_replicate:
  "held (replicate n W_idle) = {#}" "running (replicate n W_idle) = 0" "alive (replicate n W_idle) = n"
  by (induction n) (simp_all add: held_def running_def alive_def)

lemma all_exited_held: "\<forall>w\<in>set ws. w = W_exited \<Longrightarrow> held ws = {#}"
  by (induction ws) (auto simp: held_def)

lemma outcome_not_pending [simp]: "packaged_outcome b \<noteq> Pending"
  by (cases b) simp_all

section \<open>The invariant\<close>

definition counts_inv :: "pool \<Rightarrow> bool" where
  "counts_inv p \<longleftrightarrow> core_threads (config p) \<le> current_threads p
     \<and> current_threads p \<le> max_threads (config p)
     \<and> active_threads p = running (workers p)
     \<and> alive (workers p) \<le> current_threads p \<and> (\<not> stop p \<longrightarrow> alive (workers p) = current_threads p)"

definition queue_inv :: "pool \<Rightarrow> bool" where
  "queue_inv p \<longleftrightarrow> (max_queue_size (config p) > 0 \<longrightarrow> length (tasks p) \<le> max_queue_size (config p))
     \<and> (stop p \<longleftrightarrow> pstate p = STOPPED) \<and> (stop p \<longrightarrow> tasks p = []) \<and> (phase p = Joining \<longrightarrow> stop p)"

definition history_inv :: "pool \<Rightarrow> bool" where
  "history_inv p \<longleftrightarrow>
     mset (pushed p) = mset (tasks p) + held (workers p) + mset (finished p) + mset (discarded p)
     \<and> tasks_failed p = 0 \<and> tasks_completed p = length (finished p)
     \<and> (\<forall>t\<in>set (finished p) \<union> set (discarded p). futures p (task_id t) \<noteq> Pending)"

definition pool_inv :: "pool \<Rightarrow> bool" where
  "pool_inv p \<longleftrightarrow> counts_inv p \<and> queue_inv p \<and> history_inv p"

lemmas inv_defs = pool_inv_def counts_inv_def queue_inv_def history_inv_def

lemma notify_one_eq:
  "notify_one p q \<Longrightarrow> \<exists>ws ns. q = p\<lparr>waiting := ws, notified := ns\<rparr>"
  by (auto simp: notify_one_def split: if_splits)
     (metis pool.surjective pool.update_convs(11,12))

lemma pool_inv_waiting [simp]:
  "pool_inv (p\<lparr>waiting := ws, notified := ns\<rparr>) = pool_inv p"
  "pool_inv (p\<lparr>notified := ns\<rparr>) = pool_inv p" "pool_inv (p\<lparr>waiting := ws\<rparr>) = pool_inv p"
  by (simp_all add: inv_defs)

lemma adjust_inv: "pool_inv p \<Longrightarrow> \<not> stop p \<Longrightarrow> pool_inv (adjust_thread_count spawned p)"
  by (auto simp: adjust_thread_count_def inv_defs count_append)

lemma enqueue_inv: "pool_inv p \<Longrightarrow> pool_inv (snd (enqueue spawned t p))"
proof -
  assume p: "pool_inv p"
  let ?p = "p\<lparr>tasks := t # tasks p, pushed := t # pushed p\<rparr>"
  have "pool_inv ?p" if "\<not> stop p" "max_queue_size (config p) > 0 \<longrightarrow> length (tasks p) < max_queue_size (config p)"
    using p that by (auto simp: inv_defs)
  with p adjust_inv [of ?p] show ?thesis
    by (auto simp: enqueue_def Let_def)
qed

lemma take_task_inv:
  assumes "pool_inv p" "i < length (workers p)" "workers p ! i = W_idle" "t \<in> set (tasks p)"
  shows "pool_inv (take_task i t p)"
  using assms worker_balance [OF assms(2), of "W_picked t"] length_remove1 [of t "tasks p"]
  by (auto simp: inv_defs take_task_def)

lemma exit_inv:
  assumes "pool_inv p" "i < length (workers p)" "workers p ! i = W_idle"
  shows "stop p \<Longrightarrow> pool_inv (p\<lparr>workers := (workers p)[i := W_exited]\<rparr>)"
    and "current_threads p > core_threads (config p) \<Longrightarrow>
      pool_inv (p\<lparr>current_threads := current_threads p - 1, workers := (workers p)[i := W_exited]\<rparr>)"
  using assms worker_balance [OF assms(2), of W_exited]
  by (auto simp: inv_defs)

lemma worker_locked_inv:
  assumes "worker_locked late i p q" and "pool_inv p" "i < length (workers p)" "workers p ! i = W_idle"
  shows "pool_inv q"
  using assms(1)
proof cases
  case reclaim
  with exit_inv(2) [OF assms(2-4)] show ?thesis by simp
next
  case leave
  with exit_inv(1) [OF assms(2-4)] assms(2) show ?thesis by (auto simp: inv_defs)
next
  case (pick t)
  then have "t \<in> set (tasks p)" by (simp add: is_top_def)
  then have "pool_inv (take_task i t p)" by (rule take_task_inv [OF assms(2-4)])
  with pick(4) show ?thesis by (auto split: if_splits dest!: notify_one_eq)
qed

lemma start_inv:
  assumes "pool_inv p" "i < length (workers p)" "workers p ! i = W_picked t"
  shows "pool_inv (start_task i t p)"
  using assms worker_balance [OF assms(2), of "W_running t"]
  by (auto simp: inv_defs start_task_def)

lemma finish_inv:
  assumes "pool_inv p" "i < length (workers p)" "workers p ! i = W_running t"
  shows "pool_inv (finish_task i t p)"
  using assms worker_balance [OF assms(2), of W_idle]
  by (auto simp: inv_defs finish_task_def execute_def Let_def)

lemma worker_step_inv: "worker_step p q \<Longrightarrow> pool_inv p \<Longrightarrow> pool_inv q"
  by (cases rule: worker_step.cases) (auto intro: worker_locked_inv start_inv finish_inv)

lemma control_inv:
  assumes "pool_inv p"
  shows "pool_inv (pause p)" "pool_inv (resume p)" "pool_inv (snd (shutdown_begin p))"
    "tasks p = [] \<Longrightarrow> pool_inv (shutdown_stop p)" "pool_inv (snd (shutdown_timeout p))" "pool_inv (stop_now p)"
  using assms by (auto simp: inv_defs pause_def resume_def shutdown_begin_def shutdown_stop_def
      shutdown_timeout_def stop_now_def)

definition pool_init :: "pool \<Rightarrow> bool" where
  "pool_init p \<longleftrightarrow> (\<exists>c. p = ThreadPool_config c \<and> core_threads c \<le> max_threads c)"

interpretation pool_system: invariant_system pool_init pool_step pool_inv
proof
  fix s assume "pool_init s"
  then show "pool_inv s"
    by (auto simp: pool_init_def ThreadPool_config_def inv_defs count_replicate)
next
  fix s t assume "pool_step s t" and "pool_inv s"
  then show "pool_inv t"
    by cases (auto intro: enqueue_inv worker_step_inv control_inv)
qed

section \<open>Progress of the workers\<close>

fun worker_weight :: "worker \<Rightarrow> nat" where
  "worker_weight W_idle = 1"
| "worker_weight (W_picked t) = 3"
| "worker_weight (W_running t) = 2"
| "worker_weight W_exited = 0"

definition weight :: "worker list \<Rightarrow> nat" where
  "weight ws = sum_list (map worker_weight ws)"

definition pool_work :: "pool \<Rightarrow> nat" where
  "pool_work p = 3 * length (tasks p) + weight (workers p)"

lemmas weight_balance = sum_list_update_balance [of _ _ worker_weight, folded weight_def]

lemma worker_locked_cases:
  assumes "worker_locked late i p q"
  obtains (gone) "tasks q = tasks p" "workers q = (workers p)[i := W_exited]"
  | (took) t where "is_top t (tasks p)" "pstate p \<noteq> PAUSED"
      "tasks q = remove1 t (tasks p)" "workers q = (workers p)[i := W_picked t]"
  using assms
proof cases
  case (pick t)
  then have "tasks q = remove1 t (tasks p) \<and> workers q = (workers p)[i := W_picked t]"
    by (auto simp: take_task_def split: if_splits dest!: notify_one_eq)
  with pick took show ?thesis by blast
qed (use gone in simp_all)

lemma worker_locked_work:
  assumes "worker_locked late i p q" "i < length (workers p)" "workers p ! i = W_idle"
  shows "pool_work q < pool_work p"
  using assms(1)
proof (cases rule: worker_locked_cases)
  case gone
  with weight_balance [OF assms(2), of W_exited] assms(3) show ?thesis by (simp add: pool_work_def)
next
  case (took t)
  then have "t \<in> set (tasks p)" by (simp add: is_top_def)
  then have "length (tasks p) = Suc (length (tasks q))"
    using took length_pos_if_in_set [of t "tasks p"] by (simp add: length_remove1)
  with took weight_balance [OF assms(2), of "W_picked t"] assms(3) show ?thesis
    by (simp add: pool_work_def)
qed

lemma worker_step_work:
  assumes "worker_step p q"
  shows "pool_work q < pool_work p"
  using assms
proof cases
  case (w_locked i late)
  then show ?thesis by (auto intro: worker_locked_work)
next
  case (w_start i t)
  with weight_balance [of i "workers p" "W_running t"] show ?thesis
    by (simp add: pool_work_def start_task_def)
next
  case (w_finish i t)
  with weight_balance [of i "workers p" W_idle] show ?thesis
    by (simp add: pool_work_def finish_task_def execute_def Let_def)
qed

lemma worker_locked_fields:
  "worker_locked late i p q \<Longrightarrow> pstate q = pstate p \<and> config q = config p \<and> stop q = stop p \<and> phase q = phase p"
  by (erule worker_lockedE) (auto simp: take_task_def split: if_splits dest!: notify_one_eq)

lemma worker_step_fields:
  "worker_step p q \<Longrightarrow> pstate q = pstate p \<and> config q = config p \<and> stop q = stop p \<and> phase q = phase p"
  by (cases rule: worker_step.cases)
     (auto simp: worker_locked_fields start_task_def finish_task_def execute_def Let_def)

lemma top_exists: "ts \<noteq> [] \<Longrightarrow> \<exists>t. is_top t ts"
proof -
  assume "ts \<noteq> []"
  then have "Max (priority ` set ts) \<in> priority ` set ts" by simp
  then obtain t where "t \<in> set ts" "priority t = Max (priority ` set ts)" by auto
  then show ?thesis by (auto simp: is_top_def intro!: exI [of _ t])
qed

lemma notify_one_exists: "\<exists>q. notify_one p q"
  by (cases "waiting p") (auto simp: notify_one_def)

text \<open>An idle worker that sees a task takes one, unless the pool is paused.\<close>

lemma pick_enabled:
  assumes "tasks p \<noteq> []" "pstate p = RUNNING \<or> pstate p = SHUTTING_DOWN"
  shows "\<exists>t q. worker_locked late i p q \<and> is_top t (tasks p) \<and> workers q = (workers p)[i := W_picked t]"
proof -
  obtain t where t: "is_top t (tasks p)" using top_exists assms(1) by blast
  obtain r where r: "notify_one (take_task i t p) r" using notify_one_exists by blast
  have w: "workers r = (workers p)[i := W_picked t]"
    using notify_one_eq [OF r] by (auto simp: take_task_def)
  have wk: "wake_condition p" and np: "pstate p \<noteq> PAUSED"
    using assms by (auto simp: wake_condition_def)
  let ?n = "max_queue_size (config p) > 0 \<and> length (tasks p) - 1 < max_queue_size (config p)"
  have "worker_locked late i p (if ?n then r else take_task i t p)"
    by (rule pick [OF _ np t]) (use wk r in simp_all)
  with t w show ?thesis
    by (intro exI [of _ t] exI [of _ "if ?n then r else take_task i t p"]) (simp add: take_task_def)
qed

definition serving :: "pool \<Rightarrow> bool" where
  "serving p \<longleftrightarrow> pool_inv p \<and> core_threads (config p) > 0
     \<and> (pstate p = RUNNING \<or> pstate p = SHUTTING_DOWN)"

definition drained :: "pool \<Rightarrow> bool" where
  "drained p \<longleftrightarrow> tasks p = [] \<and> active_threads p = 0"

lemma alive_worker: "alive ws > 0 \<Longrightarrow> \<exists>i<length ws. ws ! i \<noteq> W_exited"
proof (rule ccontr)
  assume "alive ws > 0" and "\<not> (\<exists>i<length ws. ws ! i \<noteq> W_exited)"
  moreover from this(2) have "\<forall>w\<in>set ws. w = W_exited" by (auto simp: in_set_conv_nth)
  then have "alive ws = 0" by (induction ws) (auto simp: alive_def)
  ultimately show False by simp
qed

lemma running_worker: "running ws > 0 \<Longrightarrow> \<exists>i<length ws. \<exists>t. ws ! i = W_running t"
proof (rule ccontr)
  assume "running ws > 0" and no: "\<not> (\<exists>i<length ws. \<exists>t. ws ! i = W_running t)"
  moreover from no have "\<forall>w\<in>set ws. is_running w = 0"
    by (auto simp: in_set_conv_nth) (metis is_running.elims)
  then have "running ws = 0" by (auto simp: running_def)
  ultimately show False by simp
qed

lemma serving_progress:
  assumes "serving p" and "\<not> drained p"
  shows "\<exists>q. worker_step p q"
proof (cases "active_threads p = 0")
  case False
  with assms(1) have "running (workers p) > 0" by (simp add: serving_def inv_defs)
  then show ?thesis using running_worker w_finish by blast
next
  case True
  with assms have ts: "tasks p \<noteq> []" and "alive (workers p) > 0"
    by (auto simp: serving_def drained_def inv_defs)
  then obtain i where i: "i < length (workers p)" "workers p ! i \<noteq> W_exited"
    using alive_worker by blast
  show ?thesis
  proof (cases "workers p ! i")
    case W_idle
    obtain q where "worker_locked False i p q"
      using pick_enabled [OF ts] assms(1) unfolding serving_def by blast
    with i W_idle show ?thesis by (blast intro: w_locked)
  qed (use i in \<open>auto intro: w_start w_finish\<close>)
qed

interpretation workers_progress: progress_system worker_step serving pool_work drained
  by unfold_locales
     (auto simp: serving_def worker_step_fields intro: worker_step_inv worker_step_work serving_progress[unfolded serving_def])

section \<open>Properties\<close>

lemmas pool_reach_inv = pool_system.reach_inv

lemma pool_reach_init: "core_threads c \<le> max_threads c \<Longrightarrow> reach pool_init pool_step (ThreadPool_config c)"
  by (rule reach_init) (auto simp: pool_init_def)

text \<open>
  C14. Bounds, in every reachable state: the thread count stays between the core and the maximum
  number, the active counter is the number of threads executing a task, a bounded queue never
  exceeds its bound, and until the pool stops the count is the number of threads that live.
\<close>

theorem pool_bounds:
  assumes "reach pool_init pool_step p"
  shows "core_threads (config p) \<le> current_threads p \<and> current_threads p \<le> max_threads (config p)
     \<and> active_threads p = running (workers p)
     \<and> (max_queue_size (config p) > 0 \<longrightarrow> queue_size p \<le> max_queue_size (config p))
     \<and> (\<not> stop p \<longrightarrow> alive (workers p) = current_threads p)"
  using pool_reach_inv [OF assms] by (simp add: inv_defs queue_size_def)

definition sample_config :: pool_config where
  "sample_config = \<lparr>core_threads = 1, max_threads = 2, max_queue_size = 1\<rparr>"

definition sample_task :: "nat \<Rightarrow> task" where
  "sample_task n = \<lparr>task_id = n, priority = NORMAL, task_body = Returns\<rparr>"

definition sample_pool :: pool where
  "sample_pool = snd (enqueue True (sample_task 1) (ThreadPool_config sample_config))"

lemmas sample_defs = sample_pool_def sample_config_def sample_task_def enqueue_def
  ThreadPool_config_def adjust_thread_count_def

lemma sample_reach: "reach pool_init pool_step sample_pool"
  unfolding sample_pool_def
  by (intro reach_step [OF pool_reach_init s_enqueue]) (simp add: sample_config_def)

theorem pool_bounds_witness:
  "current_threads sample_pool \<le> 2 \<and> queue_size sample_pool \<le> 1 \<and> alive (workers sample_pool) = 2"
  using pool_bounds [OF sample_reach] by (simp add: sample_defs Let_def)

text \<open>
  C11. No task is lost or run twice: in every reachable state the tasks ever queued are exactly
  those queued now, those held by a worker, those finished and those discarded by \<open>stop_now\<close>,
  with multiplicity; the future of a finished or discarded task is ready; and the completed counter counts
  the finished tasks, also those that threw, so that \<open>tasks_failed\<close> is always 0.
\<close>

theorem pool_conservation:
  assumes "reach pool_init pool_step p"
  shows "mset (pushed p) = mset (tasks p) + held (workers p) + mset (finished p) + mset (discarded p)
     \<and> (\<forall>t\<in>set (finished p) \<union> set (discarded p). futures p (task_id t) \<noteq> Pending)
     \<and> get_stats p = \<lparr>stat_completed = length (finished p), stat_failed = 0, stat_active = running (workers p)\<rparr>"
  using pool_reach_inv [OF assms] by (simp add: inv_defs get_stats_def)

theorem pool_conservation_witness:
  "mset (pushed sample_pool) = mset (tasks sample_pool) + held (workers sample_pool)
   \<and> stat_failed (get_stats sample_pool) = 0 \<and> pushed sample_pool = [sample_task 1]"
  using pool_conservation [OF sample_reach] by (simp add: sample_defs Let_def)

lemma joined_pool:
  assumes "reach pool_init pool_step p" and "shutdown_returns_true p"
  shows "tasks p = [] \<and> active_threads p = 0 \<and> pstate p = STOPPED
     \<and> mset (pushed p) = mset (finished p) + mset (discarded p)"
proof -
  have ex: "\<forall>w\<in>set (workers p). w = W_exited" and ph: "phase p = Joining"
    using assms(2) by (auto simp: shutdown_returns_true_def)
  have "running (workers p) = 0"
    using ex unfolding running_def by (induction "workers p") (auto simp: sum_list_eq_0_iff)
  with all_exited_held [OF ex] ph pool_reach_inv [OF assms(1)] show ?thesis
    by (auto simp: inv_defs)
qed


text \<open>The empty pool with one thread, shut down: the thread leaves and \<open>shutdown\<close> returns.\<close>

definition closed_pool :: pool where
  "closed_pool = (let p = shutdown_stop (snd (shutdown_begin (ThreadPool_threads 1)))
     in p\<lparr>workers := (workers p)[0 := W_exited]\<rparr>)"

lemma closed_reach: "reach pool_init pool_step closed_pool"
proof -
  let ?a = "ThreadPool_threads 1"
  let ?b = "shutdown_stop (snd (shutdown_begin ?a))"
  have "reach pool_init pool_step ?a"
    unfolding ThreadPool_threads_def by (rule pool_reach_init) simp
  then have "reach pool_init pool_step (snd (shutdown_begin ?a))" by (rule reach_step) (rule s_shutdown)
  then have b: "reach pool_init pool_step ?b"
    by (rule reach_step, intro s_drained)
       (simp_all add: shutdown_begin_def ThreadPool_threads_def ThreadPool_config_def)
  have "worker_locked False 0 ?b (?b\<lparr>workers := (workers ?b)[0 := W_exited]\<rparr>)"
    by (rule leave)
       (simp_all add: shutdown_stop_def shutdown_begin_def ThreadPool_threads_def ThreadPool_config_def)
  then have "worker_step ?b (?b\<lparr>workers := (workers ?b)[0 := W_exited]\<rparr>)"
    by (rule w_locked [rotated 2])
       (simp_all add: shutdown_stop_def shutdown_begin_def ThreadPool_threads_def ThreadPool_config_def)
  then show ?thesis
    unfolding closed_pool_def Let_def by (intro reach_step [OF b] s_worker)
qed


text \<open>
  C12. Progress: from every reachable state that is running or shutting down with at least one
  core thread, however the workers are scheduled, after finitely many of their steps the queue
  is empty and no task is executing, which is the condition \<open>shutdown\<close> waits for.
\<close>

theorem workers_drain_queue:
  assumes "reach pool_init pool_step p" and "core_threads (config p) > 0"
    and "pstate p = RUNNING \<or> pstate p = SHUTTING_DOWN"
  shows "inevitable worker_step (\<lambda>q. tasks q = [] \<and> active_threads q = 0) p"
  using workers_progress.reaches_goal [of p] assms pool_reach_inv [OF assms(1)]
  by (simp add: serving_def drained_def [abs_def])

theorem workers_drain_queue_witness:
  "inevitable worker_step (\<lambda>q. tasks q = [] \<and> active_threads q = 0) sample_pool
   \<and> tasks sample_pool = [sample_task 1]"
  using workers_drain_queue [OF sample_reach] by (simp add: sample_defs Let_def)

text \<open>
  Priorities: a worker takes a task only if no queued task has a higher priority, never
  while the pool is paused, and it removes that task alone from the queue.
\<close>

theorem worker_takes_highest:
  assumes "worker_locked late i p q" and "i < length (workers p)" and "workers q ! i = W_picked t"
    and "workers p ! i = W_idle"
  shows "t \<in> set (tasks p) \<and> (\<forall>u\<in>set (tasks p). priority u \<le> priority t)
     \<and> pstate p \<noteq> PAUSED \<and> tasks q = remove1 t (tasks p)"
  using assms(1)
proof (cases rule: worker_locked_cases)
  case (took u)
  with assms(2,3) show ?thesis by (simp add: is_top_def)
qed (use assms(2,3) in simp)

theorem worker_takes_highest_witness:
  "\<exists>q. worker_locked False 0 sample_pool q \<and> tasks q = []"
proof -
  have ne: "tasks sample_pool \<noteq> []" "pstate sample_pool = RUNNING \<or> pstate sample_pool = SHUTTING_DOWN"
    by (simp_all add: sample_defs Let_def)
  then obtain t q where q: "worker_locked False 0 sample_pool q"
    and w: "is_top t (tasks sample_pool)" "workers q = (workers sample_pool)[0 := W_picked t]"
    using pick_enabled [OF ne, of False 0] by auto
  have "tasks q = remove1 t (tasks sample_pool)" "t \<in> set (tasks sample_pool)"
    using worker_takes_highest [OF q, of t] w by (simp_all add: sample_defs Let_def)
  with q show ?thesis by (auto simp: sample_defs Let_def)
qed

text \<open>
  \<open>enqueue\<close> rejects a task exactly when the pool has stopped. It does not look at the state
  otherwise: a pool that is shutting down or paused still accepts tasks, although the
  documentation says that no new task is accepted while shutting down.
\<close>

theorem enqueue_ignores_shutdown:
  assumes "reach pool_init pool_step p"
  shows "(fst (enqueue spawned t p) = Rejected \<longleftrightarrow> pstate p = STOPPED)
     \<and> (pstate p \<noteq> STOPPED \<longrightarrow> max_queue_size (config p) = 0 \<or> queue_size p < max_queue_size (config p) \<longrightarrow>
          fst (enqueue spawned t p) = Accepted \<and> tasks (snd (enqueue spawned t p)) = t # tasks p)"
  using pool_reach_inv [OF assms]
  by (auto simp: inv_defs queue_size_def enqueue_def adjust_thread_count_def Let_def)

theorem enqueue_ignores_shutdown_witness:
  "let p = snd (shutdown_begin (ThreadPool_threads 1)) in
     pstate p = SHUTTING_DOWN \<and> fst (enqueue True (sample_task 1) p) = Accepted"
proof -
  let ?p = "snd (shutdown_begin (ThreadPool_threads 1))"
  have p: "pstate ?p = SHUTTING_DOWN" "max_queue_size (config ?p) = 0"
    by (simp_all add: shutdown_begin_def ThreadPool_threads_def ThreadPool_config_def)
  have "reach pool_init pool_step ?p"
    unfolding ThreadPool_threads_def by (intro reach_step [OF pool_reach_init s_shutdown]) simp
  from enqueue_ignores_shutdown [OF this, of True "sample_task 1"] p show ?thesis by (simp add: Let_def)
qed

text \<open>
  Once the pool has stopped nothing notifies \<open>not_full_condition_\<close> any more.
\<close>

lemma stopped_step:
  assumes "pool_step p q" and "stop p \<and> tasks p = [] \<and> w \<in> set (waiting p)"
  shows "stop q \<and> tasks q = [] \<and> w \<in> set (waiting q)"
  using assms(1)
proof cases
  case s_worker
  then show ?thesis
  proof cases
    case (w_locked i late)
    from w_locked(3) assms(2) show ?thesis by cases (auto simp: is_top_def)
  qed (use assms(2) in \<open>auto simp: start_task_def finish_task_def execute_def Let_def\<close>)
qed (use assms(2) in \<open>auto simp: enqueue_def pause_def resume_def shutdown_begin_def shutdown_stop_def
    shutdown_timeout_def stop_now_def\<close>)

text \<open>
  C31. A producer that is blocked in \<open>enqueue\<close> when the pool stops stays blocked for ever: after
  \<open>stop_now\<close> no sequence of steps wakes it, since only a worker that takes a task notifies
  \<open>not_full_condition_\<close>.
\<close>

theorem blocked_producer_never_woken:
  assumes "reach pool_init pool_step p" and "stop p" and "w \<in> set (waiting p)"
    and "steps pool_step p q"
  shows "w \<in> set (waiting q)"
proof -
  have "stop p \<and> tasks p = [] \<and> w \<in> set (waiting p)"
    using assms(2,3) pool_reach_inv [OF assms(1)] by (simp add: inv_defs)
  then have "stop q \<and> tasks q = [] \<and> w \<in> set (waiting q)"
    using stopped_step by (rule steps_stable [OF assms(4)])
  then show ?thesis by simp
qed

theorem blocked_producer_never_woken_witness:
  "let p = stop_now (snd (enqueue True (sample_task 2) sample_pool)) in
     reach pool_init pool_step p \<and> sample_task 2 \<in> set (waiting p)
     \<and> (\<forall>q\<in>{q. steps pool_step p q}. sample_task 2 \<in> set (waiting q))"
proof -
  let ?p = "stop_now (snd (enqueue True (sample_task 2) sample_pool))"
  have "stop ?p" "sample_task 2 \<in> set (waiting ?p)"
    by (simp_all add: stop_now_def sample_defs Let_def)
  moreover have "reach pool_init pool_step ?p"
    by (intro reach_step [OF reach_step [OF sample_reach s_enqueue] s_stop_now])
  ultimately show ?thesis using blocked_producer_never_woken [of ?p "sample_task 2"] by (auto simp: Let_def)
qed

text \<open>
  The destructor: after it nothing is queued, no task is accepted, and a pool that was not
  stopped before has broken the promise of every task it still had; a pool that \<open>shutdown\<close> has
  stopped is left as it is.
\<close>

theorem destroyed_pool:
  assumes "reach pool_init pool_step p"
  shows "let q = ThreadPool_destroy p in
     get_state q = STOPPED \<and> tasks q = [] \<and> reach pool_init pool_step q
     \<and> (\<forall>t\<in>set (tasks p). futures q (task_id t) = Has_exception)
     \<and> fst (enqueue spawned t q) = Rejected"
proof -
  have "reach pool_init pool_step (ThreadPool_destroy p)"
    using assms reach_step [OF assms s_stop_now] by (simp add: ThreadPool_destroy_def)
  moreover have "get_state (ThreadPool_destroy p) = STOPPED"
    by (simp add: ThreadPool_destroy_def stop_now_def get_state_def)
  moreover have "\<forall>t\<in>set (tasks p). futures (ThreadPool_destroy p) (task_id t) = Has_exception"
    using pool_reach_inv [OF assms] by (auto simp: ThreadPool_destroy_def stop_now_def inv_defs)
  ultimately show ?thesis
    using pool_reach_inv [of "ThreadPool_destroy p"] by (simp add: get_state_def Let_def inv_defs enqueue_def)
qed

theorem destroyed_pool_witness:
  "futures (ThreadPool_destroy sample_pool) 1 = Has_exception \<and> futures sample_pool 1 = Pending"
  using destroyed_pool [OF sample_reach, of True "sample_task 1"]
  by (simp add: sample_defs Let_def)

text \<open>
  What \<open>shutdown\<close> does with a pool that is not running: it returns at once, false for a
  paused pool or one already shutting down, and changes nothing. After a timeout the pool stays
  in \<open>SHUTTING_DOWN\<close> with its workers alive, so it is not stopped by force, and the next call
  of \<open>shutdown\<close> returns false.
\<close>

theorem shutdown_not_running:
  "(pstate p \<noteq> RUNNING \<longrightarrow> shutdown_begin p = (Some (pstate p = STOPPED), p))
   \<and> (case shutdown_timeout (snd (shutdown_begin p)) of (r, q) \<Rightarrow>
        \<not> r \<and> workers q = workers p \<and> stop q = stop p
        \<and> (pstate p = RUNNING \<longrightarrow> fst (shutdown_begin q) = Some False))"
  by (auto simp: shutdown_begin_def shutdown_timeout_def)

theorem shutdown_not_running_witness:
  "fst (shutdown_begin (pause (ThreadPool_threads 1))) = Some False"
  using shutdown_not_running [of "pause (ThreadPool_threads 1)"]
  by (simp add: pause_def ThreadPool_threads_def ThreadPool_config_def)

end
