(* ===== verification/Thread_Pool_Singleton.thy ===== *)
theory Thread_Pool_Singleton
  imports Thread_Pool
begin

text \<open>
  \<open>rpc_src/thread_pool/thread_pool_singleton.h\<close>: the process-wide pool. \<open>instance_\<close> is a
  \<open>unique_ptr\<close>, here \<open>pool option\<close>; every operation holds \<open>mutex_\<close>, so it is one function on it.
  \<open>hw\<close> is the value of \<open>std::thread::hardware_concurrency()\<close>.
\<close>

type_synonym pool_instance = "pool option"

definition init_threads :: "nat \<Rightarrow> pool_instance \<Rightarrow> bool \<times> pool_instance" where
  "init_threads threads inst =
     (case inst of Some _ \<Rightarrow> (False, inst) | None \<Rightarrow> (True, Some (ThreadPool_threads threads)))"

definition init_config :: "pool_config \<Rightarrow> pool_instance \<Rightarrow> bool \<times> pool_instance" where
  "init_config c inst =
     (case inst of Some _ \<Rightarrow> (False, inst) | None \<Rightarrow> (True, Some (ThreadPool_config c)))"

definition getInstance :: "nat \<Rightarrow> pool_instance \<Rightarrow> pool" where
  "getInstance hw inst = (case inst of Some p \<Rightarrow> p | None \<Rightarrow> ThreadPool_threads hw)"

definition getInstance_config :: "pool_config \<Rightarrow> pool_instance \<Rightarrow> pool" where
  "getInstance_config c inst = (case inst of Some p \<Rightarrow> p | None \<Rightarrow> ThreadPool_config c)"

definition Singleton_enqueue :: "nat \<Rightarrow> bool \<Rightarrow> task \<Rightarrow> pool_instance \<Rightarrow> enqueue_result \<times> pool_instance" where
  "Singleton_enqueue hw spawned t inst = apsnd Some (enqueue spawned t (getInstance hw inst))"

definition getStats :: "pool_instance \<Rightarrow> stats" where
  "getStats inst = (case inst of
     None \<Rightarrow> \<lparr>stat_completed = 0, stat_failed = 0, stat_active = 0\<rparr> | Some p \<Rightarrow> get_stats p)"

definition getQueueSize :: "pool_instance \<Rightarrow> nat" where
  "getQueueSize inst = (case inst of None \<Rightarrow> 0 | Some p \<Rightarrow> queue_size p)"

definition getPoolSize :: "pool_instance \<Rightarrow> nat" where
  "getPoolSize inst = (case inst of None \<Rightarrow> 0 | Some p \<Rightarrow> pool_size p)"

definition Singleton_pause :: "pool_instance \<Rightarrow> bool \<times> pool_instance" where
  "Singleton_pause inst = (case inst of None \<Rightarrow> (False, None) | Some p \<Rightarrow> (True, Some (pause p)))"

definition Singleton_resume :: "pool_instance \<Rightarrow> bool \<times> pool_instance" where
  "Singleton_resume inst = (case inst of None \<Rightarrow> (False, None) | Some p \<Rightarrow> (True, Some (resume p)))"

text \<open>
  \<open>shutdown\<close> runs the pool's own \<open>shutdown\<close>, during which the workers and the producers that
  already have a reference to the pool go on.
\<close>

inductive Singleton_shutdown :: "pool_instance \<Rightarrow> bool \<Rightarrow> pool_instance \<Rightarrow> bool" where
  shutdown_none: "Singleton_shutdown None True None"
| shutdown_refused: "shutdown_begin p = (Some r, q) \<Longrightarrow>
     Singleton_shutdown (Some p) r (if r then None else Some q)"
| shutdown_late: "shutdown_begin p = (None, q) \<Longrightarrow> steps pool_step q q' \<Longrightarrow> phase q' = Draining \<Longrightarrow>
     shutdown_timeout q' = (r, q'') \<Longrightarrow>
     Singleton_shutdown (Some p) r (if r then None else Some q'')"
| shutdown_done: "shutdown_begin p = (None, q) \<Longrightarrow> steps pool_step q q' \<Longrightarrow> shutdown_returns_true q' \<Longrightarrow>
     Singleton_shutdown (Some p) True None"

inductive_cases Singleton_shutdownE: "Singleton_shutdown inst r inst'"

text \<open>\<open>destroy\<close>: the pool after \<open>stop_now\<close>, which producers may still be blocked in, and \<open>instance_\<close>.\<close>

definition destroy :: "pool_instance \<Rightarrow> pool option \<times> pool_instance" where
  "destroy inst = (case inst of None \<Rightarrow> (None, None) | Some p \<Rightarrow> (Some (stop_now p), None))"

definition exists :: "pool_instance \<Rightarrow> bool" where
  "exists inst = (inst \<noteq> None)"

definition getState :: "pool_instance \<Rightarrow> pool_state" where
  "getState inst = (case inst of None \<Rightarrow> STOPPED | Some p \<Rightarrow> pstate p)"

section \<open>Properties\<close>

text \<open>
  Only the first initialisation counts: it succeeds exactly when there is no pool, it
  creates a running pool of the requested number of threads, and a later \<open>init\<close> or
  \<open>getInstance\<close> with another configuration leaves the pool as it is.
\<close>

theorem singleton_first_init_wins:
  "case init_config c inst of (ok, inst') \<Rightarrow>
     (ok \<longleftrightarrow> \<not> exists inst) \<and> exists inst'
     \<and> (ok \<longrightarrow> getState inst' = RUNNING \<and> getPoolSize inst' = core_threads c \<and> getQueueSize inst' = 0)
     \<and> (\<not> ok \<longrightarrow> inst' = inst)
     \<and> init_config d inst' = (False, inst') \<and> init_threads n inst' = (False, inst')
     \<and> Some (getInstance_config d inst') = inst' \<and> Some (getInstance n inst') = inst'"
  by (cases inst)
     (auto simp: init_config_def init_threads_def exists_def getState_def getPoolSize_def pool_size_def
      getQueueSize_def queue_size_def getInstance_def getInstance_config_def ThreadPool_config_def)

theorem singleton_first_init_wins_witness:
  "fst (init_config sample_config None) \<and>
   \<not> fst (init_threads 8 (snd (init_config sample_config None)))
   \<and> getPoolSize (snd (init_config sample_config None)) = 1"
  using singleton_first_init_wins [of None sample_config sample_config 8]
  by (simp add: exists_def sample_config_def split: prod.splits)

lemma steps_from_begin:
  "reach pool_init pool_step p \<Longrightarrow> shutdown_begin p = (x, q) \<Longrightarrow> steps pool_step q q' \<Longrightarrow>
   reach pool_init pool_step q' \<and> steps pool_step p q'"
proof -
  assume r: "reach pool_init pool_step p" and b: "shutdown_begin p = (x, q)" and s: "steps pool_step q q'"
  have "steps pool_step p q" using s_shutdown [of p] b by (auto intro: steps_single)
  with s have "steps pool_step p q'" by (rule steps_trans)
  with steps_reach [OF this r] show ?thesis by simp
qed

definition closing :: "pool \<Rightarrow> bool" where
  "closing p \<longleftrightarrow> pstate p = SHUTTING_DOWN \<or> pstate p = STOPPED"

lemma enqueue_pstate: "pstate (snd (enqueue spawned t p)) = pstate p"
  by (simp add: enqueue_def adjust_thread_count_def Let_def)

lemma closing_step:
  assumes "pool_step p q" and "closing p"
  shows "closing q"
  using assms(1)
proof cases
  case s_worker
  with assms(2) show ?thesis by (simp add: closing_def worker_step_fields)
qed (use assms(2) in \<open>auto simp: closing_def enqueue_pstate pause_def resume_def shutdown_begin_def
      shutdown_stop_def shutdown_timeout_def stop_now_def\<close>)

lemma closing_steps:
  assumes "shutdown_begin p = (None, q)" and "steps pool_step q q'"
  shows "closing q'"
proof (rule steps_stable [OF assms(2)])
  show "closing q" using assms(1) by (auto simp: shutdown_begin_def closing_def split: if_splits)
qed (rule closing_step)

text \<open>
  \<open>shutdown\<close> of the singleton releases the pool exactly when it returns true. Called on a
  running pool it then has run until the queue was empty and every task finished or, by
  \<open>stop_now\<close>, discarded. When it returns false the pool stays in place, no longer running, and
  calling \<open>shutdown\<close> again succeeds only if the pool has been stopped in between.
\<close>

theorem singleton_shutdown_releases:
  assumes "Singleton_shutdown inst r inst'" and "\<forall>p. inst = Some p \<longrightarrow> reach pool_init pool_step p"
  shows "(r \<longleftrightarrow> \<not> exists inst') \<and> (\<not> r \<longrightarrow> getState inst' \<noteq> RUNNING)
     \<and> (\<forall>p. r \<and> inst = Some p \<and> pstate p = RUNNING \<longrightarrow>
          (\<exists>q. steps pool_step p q \<and> shutdown_returns_true q \<and> tasks q = []
             \<and> mset (pushed q) = mset (finished q) + mset (discarded q)))"
  using assms(1)
proof cases
  case (shutdown_refused p q)
  then show ?thesis by (auto simp: exists_def getState_def shutdown_begin_def split: if_splits)
next
  case (shutdown_late p q q' q'')
  then show ?thesis
    using closing_steps [of p q q'] by (auto simp: exists_def getState_def shutdown_timeout_def closing_def)
next
  case (shutdown_done p q q')
  with assms(2) steps_from_begin [of p None q q'] have
    q': "reach pool_init pool_step q'" "steps pool_step p q'" by auto
  have "tasks q' = [] \<and> mset (pushed q') = mset (finished q') + mset (discarded q')"
    using joined_pool [OF q'(1)] shutdown_done by simp
  with q' shutdown_done show ?thesis by (auto simp: exists_def)
qed (simp add: exists_def)

theorem singleton_shutdown_releases_witness:
  "Singleton_shutdown (Some (pause (ThreadPool_threads 1))) False (Some (pause (ThreadPool_threads 1)))
   \<and> getState (Some (pause (ThreadPool_threads 1))) \<noteq> RUNNING"
proof -
  let ?p = "pause (ThreadPool_threads 1)"
  have "shutdown_begin ?p = (Some False, ?p)"
    by (simp add: shutdown_begin_def pause_def ThreadPool_threads_def ThreadPool_config_def)
  from shutdown_refused [OF this] have s: "Singleton_shutdown (Some ?p) False (Some ?p)" by simp
  have "reach pool_init pool_step ?p"
    unfolding ThreadPool_threads_def by (intro reach_step [OF pool_reach_init s_pause]) simp
  with singleton_shutdown_releases [OF s] s show ?thesis by simp
qed

end
