(* ===== verification/Message_Cycle.thy ===== *)
theory Message_Cycle
  imports Socket_Reads Connection_Manager Service_Manager Thread_Pool_Singleton
begin

text \<open>
  \<open>rpc_src/network/message_cycle.h\<close> and \<open>message_cycle.cpp\<close>: the event loop of the server. The
  state holds the connection objects and who refers to them: the table of the connection
  manager and the closures submitted to the thread pool. \<open>interest\<close> is the set of descriptors
  registered with epoll and \<open>open_fds\<close> the kernel's table of open descriptors. A
  \<open>shared_ptr\<close> that goes away is \<open>release\<close>: the object is destroyed, and its socket closed,
  when nothing else refers to it. Results of system calls are arguments, as in \<open>Connection\<close>.
\<close>

record server =
  heap :: conn_heap
  fresh_ref :: conn_ref
  conns :: conn_table
  interest :: "int set"
  open_fds :: "int set"
  listen_fds :: "int set"
  running_flag :: bool
  thread_pool :: pool_instance
  jobs :: "(nat \<times> conn_ref \<times> rpc_request) list"
  next_job :: nat

text \<open>What the server runs on.\<close>

record platform =
  zlib :: zstd_lib
  memory :: nat
  hardware_concurrency :: nat
  can_spawn :: bool

section \<open>Answering one request\<close>

definition SendErrorResponse :: "platform \<Rightarrow> (nat \<Rightarrow> int) \<Rightarrow> write_result list \<Rightarrow> connection
    \<Rightarrow> u32 \<Rightarrow> u32 \<Rightarrow> bytes \<Rightarrow> (bool \<times> bytes \<times> connection \<times> write_result list) run" where
  "SendErrorResponse P dis ws conn seq code msg =
     (let response = new_response\<lparr>sequence_id := seq\<rparr>;
          response = response\<lparr>response_code := code\<rparr>;
          response = response\<lparr>error_message := msg\<rparr>
      in Write_response (zlib P) (memory P) dis ws response conn)"

definition HandleRpcRequestSync :: "platform \<Rightarrow> service_table \<Rightarrow> (nat \<Rightarrow> int) \<Rightarrow> write_result list
    \<Rightarrow> connection \<Rightarrow> rpc_request \<Rightarrow> (bool \<times> bytes \<times> connection \<times> write_result list) run" where
  "HandleRpcRequestSync P services dis ws conn request =
     (if service_name request = [] \<or> method_name request = []
      then SendErrorResponse P dis ws conn (sequence_id request)
             (error_code_value INVALID_REQUEST) (getErrorMessage INVALID_REQUEST)
      else case ServiceManager_HandleRpcRequest services (service_name request) (method_name request)
                  (payload request) [] of
        Inl e \<Rightarrow> Fault e
      | Inr (False, _) \<Rightarrow>
          SendErrorResponse P dis ws conn (sequence_id request)
            (error_code_value SERVICE_NOT_FOUND) (getErrorMessage SERVICE_NOT_FOUND)
      | Inr (True, result) \<Rightarrow>
          let response = new_response\<lparr>sequence_id := sequence_id request\<rparr>;
              response = response\<lparr>response_code := error_code_value SUCCESS\<rparr>;
              response = response\<lparr>error_message := getErrorMessage SUCCESS\<rparr>;
              response = response\<lparr>result_data := result\<rparr>
          in Write_response (zlib P) (memory P) dis ws response conn)"

section \<open>Handing a request to the pool\<close>

text \<open>
  The closure captures the connection and the request; \<open>b\<close> is how its execution will end. A
  rejected closure is destroyed with the returned future, which the caller ignores. With a full
  queue the event thread blocks inside \<open>enqueue\<close>.
\<close>

definition HandleRpcRequest :: "platform \<Rightarrow> body \<Rightarrow> conn_ref \<Rightarrow> rpc_request \<Rightarrow> server \<Rightarrow> server run" where
  "HandleRpcRequest P b r request s =
     (let inst = (if \<not> exists (thread_pool s)
                  then snd (init_threads (hardware_concurrency P) (thread_pool s)) else thread_pool s);
          t = \<lparr>task_id = next_job s, priority = NORMAL, task_body = b\<rparr>
      in case Singleton_enqueue (hardware_concurrency P) (can_spawn P) t inst of
           (Waits, _) \<Rightarrow> Blocked
         | (Rejected, inst) \<Rightarrow> Done (s\<lparr>thread_pool := inst\<rparr>)
         | (Accepted, inst) \<Rightarrow>
             Done (s\<lparr>thread_pool := inst, jobs := jobs s @ [(next_job s, r, request)], next_job := next_job s + 1\<rparr>))"

section \<open>Reading from a client\<close>

definition referenced :: "server \<Rightarrow> conn_ref \<Rightarrow> bool" where
  "referenced s r \<longleftrightarrow> conns s (fd (heap s r)) = Some r \<or> r \<in> (fst \<circ> snd) ` set (jobs s)"

definition release :: "conn_ref \<Rightarrow> server \<Rightarrow> server" where
  "release r s =
     (if referenced s r then s
      else s\<lparr>open_fds := open_fds s - {fd (heap s r)}, interest := interest s - {fd (heap s r)},
             heap := (heap s)(r := Close (heap s r))\<rparr>)"

definition RemoveConnection :: "int \<Rightarrow> server \<Rightarrow> server" where
  "RemoveConnection f s = s\<lparr>interest := interest s - {f}, conns := Manager_RemoveConnection f (conns s)\<rparr>"

lemma ExtractFrame_consumes:
  "ExtractFrame z mem c out = Inr (kComplete, d, c') \<Longrightarrow> length (read_buffer c') < length (read_buffer c)"
  by (auto simp: ExtractFrame_eq Let_def split: if_splits sum.splits option.splits)

text \<open>
  The loop that cuts frames until the buffer holds no complete one. The flag is false when the
  connection has to go.
\<close>

function HandleClientData_loop :: "platform \<Rightarrow> (rpc_request \<Rightarrow> body) \<Rightarrow> conn_ref \<Rightarrow> connection \<Rightarrow> server
    \<Rightarrow> (bool \<times> connection \<times> server) run" where
  "HandleClientData_loop P b r c s =
     (case ExtractFrame (zlib P) (memory P) c [] of
        Inl e \<Rightarrow> Fault e
      | Inr (kIncomplete, _, c') \<Rightarrow> Done (True, c', s)
      | Inr (kError, _, c') \<Rightarrow> Done (False, c', s)
      | Inr (kComplete, frame, c') \<Rightarrow>
          (case RpcRequest_Deserialize frame new_request of
             Inl e \<Rightarrow> Fault e
           | Inr (False, _) \<Rightarrow> Done (False, c', s)
           | Inr (True, request) \<Rightarrow>
               (case HandleRpcRequest P (b request) r request s of
                  Blocked \<Rightarrow> Blocked
                | Fault e \<Rightarrow> Fault e
                | Done s' \<Rightarrow> HandleClientData_loop P b r c' s')))"
  by pat_completeness auto
termination
  by (relation "measure (\<lambda>(P, b, r, c, s). length (read_buffer c))")
     (auto dest: ExtractFrame_consumes)

declare HandleClientData_loop.simps [simp del]

definition HandleClientData :: "platform \<Rightarrow> (rpc_request \<Rightarrow> body) \<Rightarrow> read_result list \<Rightarrow> int \<Rightarrow> server \<Rightarrow> server run" where
  "HandleClientData P b rs f s =
     (case GetConnection (conns s) f of
        None \<Rightarrow> Done (RemoveConnection f s)
      | Some r \<Rightarrow>
          (case Read rs (heap s r) of
             Blocked \<Rightarrow> Blocked
           | Fault e \<Rightarrow> Fault e
           | Done (False, c, _) \<Rightarrow> Done (release r (RemoveConnection f (s\<lparr>heap := (heap s)(r := c)\<rparr>)))
           | Done (True, c, _) \<Rightarrow>
               (case HandleClientData_loop P b r c s of
                  Blocked \<Rightarrow> Blocked
                | Fault e \<Rightarrow> Fault e
                | Done (keep, c, s) \<Rightarrow>
                    let s = s\<lparr>heap := (heap s)(r := c)\<rparr>
                    in Done (release r (if keep then s else RemoveConnection f s)))))"

section \<open>New connections, events, the loop\<close>

text \<open>\<open>accept\<close>, then whether \<open>fcntl\<close> and \<open>epoll_ctl\<close> succeed on the descriptor it returned.\<close>

datatype accept_result = Acc_error | Acc int bool bool

definition AddListenFd :: "bool \<Rightarrow> int \<Rightarrow> server \<Rightarrow> bool \<times> server" where
  "AddListenFd epoll_ok f s =
     (if \<not> epoll_ok then (False, s)
      else (True, s\<lparr>interest := insert f (interest s), listen_fds := insert f (listen_fds s)\<rparr>))"

definition HandleNewConnection :: "accept_result \<Rightarrow> server \<Rightarrow> server" where
  "HandleNewConnection a s =
     (case a of
        Acc_error \<Rightarrow> s
      | Acc client_fd nonblock_ok epoll_ok \<Rightarrow>
          let s = s\<lparr>open_fds := insert client_fd (open_fds s)\<rparr> in
          if \<not> nonblock_ok then s\<lparr>open_fds := open_fds s - {client_fd}\<rparr>
          else let r = fresh_ref s;
                   s = s\<lparr>heap := (heap s)(r := new_connection client_fd), fresh_ref := r + 1\<rparr>;
                   s = s\<lparr>conns := AddConnection (heap s) r (conns s)\<rparr>
               in if \<not> epoll_ok then release r (RemoveConnection client_fd s)
                  else release r (s\<lparr>interest := insert client_fd (interest s)\<rparr>))"

text \<open>
  One entry of the array \<open>epoll_wait\<close> fills, with what the kernel answers while it is handled.
\<close>

record epoll_event =
  data_fd :: int
  has_error :: bool
  has_input :: bool
  accepted :: accept_result
  reads :: "read_result list"

definition HandleEpollEvent :: "platform \<Rightarrow> (rpc_request \<Rightarrow> body) \<Rightarrow> epoll_event \<Rightarrow> server \<Rightarrow> server run" where
  "HandleEpollEvent P b ev s =
     (let f = data_fd ev in
      if has_error ev
      then Done (case conns s f of None \<Rightarrow> RemoveConnection f s | Some r \<Rightarrow> release r (RemoveConnection f s))
      else if f \<in> listen_fds s then Done (HandleNewConnection (accepted ev) s)
      else if has_input ev then HandleClientData P b (reads ev) f s
      else Done s)"

fun HandleEpollEvents :: "platform \<Rightarrow> (rpc_request \<Rightarrow> body) \<Rightarrow> epoll_event list \<Rightarrow> server \<Rightarrow> server run" where
  "HandleEpollEvents P b [] s = Done s"
| "HandleEpollEvents P b (ev # evs) s =
     (case HandleEpollEvent P b ev s of
        Blocked \<Rightarrow> Blocked | Fault e \<Rightarrow> Fault e | Done s \<Rightarrow> HandleEpollEvents P b evs s)"

definition Stop :: "server \<Rightarrow> server" where
  "Stop s = s\<lparr>running_flag := False\<rparr>"

text \<open>The destructor closes the epoll instance, which is not among \<open>open_fds\<close>; nothing is watched any more.\<close>

definition MessageCycle_destroy :: "server \<Rightarrow> server" where
  "MessageCycle_destroy s = s\<lparr>running_flag := False, interest := {}\<rparr>"

text \<open>The results of \<open>epoll_wait\<close>; the flag says that \<open>Stop\<close> is called (by a signal) meanwhile.\<close>

datatype wait_result = Wait_interrupted | Wait_failed | Wait_events "epoll_event list"

fun Loop_rounds :: "platform \<Rightarrow> (rpc_request \<Rightarrow> body) \<Rightarrow> (bool \<times> wait_result) list \<Rightarrow> server \<Rightarrow> server run" where
  "Loop_rounds P b waits s =
     (if \<not> running_flag s then Done s
      else case waits of
        [] \<Rightarrow> Blocked
      | (stopped, w) # waits \<Rightarrow>
          let s = (if stopped then Stop s else s) in
          (case w of
             Wait_interrupted \<Rightarrow> Loop_rounds P b waits s
           | Wait_failed \<Rightarrow> Done s
           | Wait_events evs \<Rightarrow>
               (case HandleEpollEvents P b evs s of
                  Blocked \<Rightarrow> Blocked | Fault e \<Rightarrow> Fault e | Done s \<Rightarrow> Loop_rounds P b waits s)))"

declare Loop_rounds.simps [simp del]

definition Loop :: "platform \<Rightarrow> (rpc_request \<Rightarrow> body) \<Rightarrow> (bool \<times> wait_result) list \<Rightarrow> server \<Rightarrow> server run" where
  "Loop P b waits s = Loop_rounds P b waits (s\<lparr>running_flag := True\<rparr>)"

section \<open>Who owns which descriptor\<close>

definition live :: "server \<Rightarrow> conn_ref \<Rightarrow> bool" where
  "live s r \<longleftrightarrow> (\<exists>f. conns s f = Some r) \<or> r \<in> (fst \<circ> snd) ` set (jobs s)"

text \<open>
  The descriptor of a live connection object is open, belongs to no other live object and is
  no listening socket; the table is keyed by descriptor; epoll watches the table's descriptors
  and otherwise only listening sockets.
\<close>

definition owner_inv :: "server \<Rightarrow> bool" where
  "owner_inv s \<longleftrightarrow>
     (\<forall>f r. conns s f = Some r \<longrightarrow> fd (heap s r) = f)
     \<and> (\<forall>r. live s r \<longrightarrow> r < fresh_ref s \<and> 0 \<le> fd (heap s r) \<and> fd (heap s r) \<in> open_fds s - listen_fds s)
     \<and> (\<forall>r r'. live s r \<longrightarrow> live s r' \<longrightarrow> fd (heap s r) = fd (heap s r') \<longrightarrow> r = r')"

definition epoll_inv :: "server \<Rightarrow> bool" where
  "epoll_inv s \<longleftrightarrow> dom (conns s) \<subseteq> interest s \<and> interest s \<subseteq> dom (conns s) \<union> listen_fds s
     \<and> listen_fds s \<subseteq> open_fds s"

definition sole_owner :: "server \<Rightarrow> conn_ref \<Rightarrow> bool" where
  "sole_owner s r \<longleftrightarrow> fd (heap s r) \<notin> listen_fds s
     \<and> (\<forall>r'. live s r' \<longrightarrow> r' \<noteq> r \<longrightarrow> fd (heap s r') \<noteq> fd (heap s r))"

definition cycle_inv :: "server \<Rightarrow> bool" where
  "cycle_inv s \<longleftrightarrow> owner_inv s \<and> epoll_inv s"

lemma owner_facts:
  assumes "cycle_inv s"
  shows owner_key: "conns s f = Some r \<Longrightarrow> fd (heap s r) = f"
    and owner_fd: "live s r \<Longrightarrow> r < fresh_ref s \<and> 0 \<le> fd (heap s r) \<and> fd (heap s r) \<in> open_fds s - listen_fds s"
    and owner_inj: "live s r \<Longrightarrow> live s r' \<Longrightarrow> fd (heap s r) = fd (heap s r') \<Longrightarrow> r = r'"
    and interest_dom: "dom (conns s) \<subseteq> interest s" "interest s \<subseteq> dom (conns s) \<union> listen_fds s"
    and listen_open: "listen_fds s \<subseteq> open_fds s"
  using assms unfolding cycle_inv_def owner_inv_def epoll_inv_def by blast+

lemma live_sole: "cycle_inv s \<Longrightarrow> live s r \<Longrightarrow> sole_owner s r"
  by (auto simp: cycle_inv_def owner_inv_def sole_owner_def)

lemma live_conns: "conns s f = Some r \<Longrightarrow> live s r"
  by (auto simp: live_def)

lemma referenced_live: "cycle_inv s \<Longrightarrow> referenced s r = live s r"
proof -
  assume "cycle_inv s"
  then have "conns s f = Some r \<Longrightarrow> fd (heap s r) = f" for f
    by (simp add: cycle_inv_def owner_inv_def)
  then show ?thesis unfolding referenced_def live_def by blast
qed

lemma live_remove: "live (RemoveConnection f s) r \<Longrightarrow> live s r"
  by (auto simp: live_def RemoveConnection_def Manager_RemoveConnection_def split: if_splits)

lemma RemoveConnection_inv: "cycle_inv s \<Longrightarrow> cycle_inv (RemoveConnection f s)"
proof -
  assume inv: "cycle_inv s"
  have "owner_inv (RemoveConnection f s)"
    using inv live_remove [of f s] unfolding cycle_inv_def owner_inv_def
    by (auto simp: RemoveConnection_def Manager_RemoveConnection_def)
  moreover have "epoll_inv (RemoveConnection f s)"
    using inv unfolding cycle_inv_def epoll_inv_def
    by (auto simp: RemoveConnection_def Manager_RemoveConnection_def)
  ultimately show ?thesis by (simp add: cycle_inv_def)
qed

lemma RemoveConnection_sole: "sole_owner s r \<Longrightarrow> sole_owner (RemoveConnection f s) r"
  using live_remove [of f s] by (auto simp: sole_owner_def RemoveConnection_def)

lemma release_inv:
  assumes inv: "cycle_inv s" and priv: "sole_owner s r"
  shows "cycle_inv (release r s)"
proof (cases "live s r")
  case True
  with inv show ?thesis by (simp add: release_def referenced_live)
next
  case False
  let ?f = "fd (heap s r)"
  let ?s = "s\<lparr>open_fds := open_fds s - {?f}, interest := interest s - {?f}, heap := (heap s)(r := Close (heap s r))\<rparr>"
  have rel: "release r s = ?s" using False inv by (simp add: release_def referenced_live)
  have live: "live ?s r' \<longleftrightarrow> live s r'" for r' by (simp add: live_def)
  have ne: "live s r' \<Longrightarrow> r' \<noteq> r \<and> fd (heap s r') \<noteq> ?f" for r'
    using False priv by (auto simp: sole_owner_def)
  have keys: "conns s g = Some r' \<Longrightarrow> fd (heap s r') = g \<and> live s r'" for g r'
    using inv live_conns [of s g r'] by (simp add: cycle_inv_def owner_inv_def)
  have "owner_inv ?s"
    unfolding owner_inv_def live
  proof (intro conjI allI impI)
    fix f r' assume "conns ?s f = Some r'"
    with keys ne show "fd (heap ?s r') = f" by auto
  next
    fix r' assume l: "live s r'"
    with inv have "r' < fresh_ref s" "0 \<le> fd (heap s r')" "fd (heap s r') \<in> open_fds s - listen_fds s"
      by (simp_all add: cycle_inv_def owner_inv_def)
    with ne [OF l] show "r' < fresh_ref ?s" "0 \<le> fd (heap ?s r')" "fd (heap ?s r') \<in> open_fds ?s - listen_fds ?s"
      by simp_all
  next
    fix r1 r2 assume l: "live s r1" "live s r2" and "fd (heap ?s r1) = fd (heap ?s r2)"
    with ne [OF l(1)] ne [OF l(2)] have "fd (heap s r1) = fd (heap s r2)" by simp
    with l inv show "r1 = r2" by (simp add: cycle_inv_def owner_inv_def)
  qed
  moreover have "epoll_inv ?s"
    unfolding epoll_inv_def
  proof (intro conjI)
    have e: "dom (conns s) \<subseteq> interest s" "interest s \<subseteq> dom (conns s) \<union> listen_fds s" "listen_fds s \<subseteq> open_fds s"
      using inv by (simp_all add: cycle_inv_def epoll_inv_def)
    have "?f \<notin> dom (conns s)" using keys [of ?f] ne by blast
    with e show "dom (conns ?s) \<subseteq> interest ?s" by auto
    from e show "interest ?s \<subseteq> dom (conns ?s) \<union> listen_fds ?s" by auto
    from e priv show "listen_fds ?s \<subseteq> open_fds ?s" by (auto simp: sole_owner_def)
  qed
  ultimately show ?thesis by (simp add: rel cycle_inv_def)
qed

lemma heap_inv:
  assumes "cycle_inv s" and "fd c = fd (heap s r)"
  shows "cycle_inv (s\<lparr>heap := (heap s)(r := c)\<rparr>)"
proof -
  have live: "live (s\<lparr>heap := (heap s)(r := c)\<rparr>) r' \<longleftrightarrow> live s r'" for r' by (simp add: live_def)
  have fds: "fd (((heap s)(r := c)) r') = fd (heap s r')" for r' using assms(2) by simp
  show ?thesis
    using assms(1) unfolding cycle_inv_def owner_inv_def epoll_inv_def live by (simp add: fds del: fun_upd_apply)
qed

lemma heap_sole: "fd c = fd (heap s r') \<Longrightarrow> sole_owner (s\<lparr>heap := (heap s)(r' := c)\<rparr>) r = sole_owner s r"
  by (auto simp: sole_owner_def live_def)

lemma jobs_inv:
  assumes "cycle_inv s" and "(fst \<circ> snd) ` set js \<subseteq> Collect (live s)"
  shows "cycle_inv (s\<lparr>thread_pool := tp, jobs := js, next_job := n\<rparr>)"
    and "sole_owner s r \<Longrightarrow> sole_owner (s\<lparr>thread_pool := tp, jobs := js, next_job := n\<rparr>) r"
proof -
  have live: "live (s\<lparr>thread_pool := tp, jobs := js, next_job := n\<rparr>) r \<Longrightarrow> live s r" for r
    using assms(2) by (auto simp: live_def)
  show "cycle_inv (s\<lparr>thread_pool := tp, jobs := js, next_job := n\<rparr>)"
    using assms(1) live unfolding cycle_inv_def owner_inv_def epoll_inv_def by simp
  show "sole_owner s r \<Longrightarrow> sole_owner (s\<lparr>thread_pool := tp, jobs := js, next_job := n\<rparr>) r"
    using live unfolding sole_owner_def by simp
qed

lemma HandleRpcRequest_Done:
  assumes "HandleRpcRequest P b r req s = Done s'"
  shows "\<exists>tp js n. s' = s\<lparr>thread_pool := tp, jobs := jobs s @ js, next_job := n\<rparr> \<and> (fst \<circ> snd) ` set js \<subseteq> {r}"
proof -
  obtain e inst where e: "Singleton_enqueue (hardware_concurrency P) (can_spawn P)
      \<lparr>task_id = next_job s, priority = NORMAL, task_body = b\<rparr>
      (if \<not> exists (thread_pool s) then snd (init_threads (hardware_concurrency P) (thread_pool s)) else thread_pool s)
      = (e, inst)" by fastforce
  show ?thesis
  proof (cases e)
    case Rejected
    with assms e have "s' = s\<lparr>thread_pool := inst\<rparr>"
      by (simp add: HandleRpcRequest_def Let_def)
    then have "s' = s\<lparr>thread_pool := inst, jobs := jobs s @ [], next_job := next_job s\<rparr>" by simp
    then show ?thesis by (intro exI [of _ inst] exI [of _ "[]"] exI [of _ "next_job s"]) simp
  next
    case Accepted
    with assms e have "s' = s\<lparr>thread_pool := inst, jobs := jobs s @ [(next_job s, r, req)], next_job := next_job s + 1\<rparr>"
      by (simp add: HandleRpcRequest_def Let_def)
    then show ?thesis
      by (intro exI [of _ inst] exI [of _ "[(next_job s, r, req)]"] exI [of _ "next_job s + 1"]) simp
  qed (use assms e in \<open>simp add: HandleRpcRequest_def Let_def\<close>)
qed

lemma HandleClientData_loop_cases:
  assumes "HandleClientData_loop P b r c s = Done (k, c', s')"
  obtains (stop) st d where "ExtractFrame (zlib P) (memory P) c [] = Inr (st, d, c')" "s' = s"
  | (continue) frame c1 request s1 where
      "ExtractFrame (zlib P) (memory P) c [] = Inr (kComplete, frame, c1)"
      "HandleRpcRequest P (b request) r request s = Done s1"
      "HandleClientData_loop P b r c1 s1 = Done (k, c', s')"
proof -
  obtain st d c1 where x: "ExtractFrame (zlib P) (memory P) c [] = Inr (st, d, c1)"
    using assms by (subst (asm) HandleClientData_loop.simps) (auto split: sum.splits)
  show thesis
  proof (cases "c1 = c' \<and> s' = s")
    case True
    with x stop show thesis by blast
  next
    case False
    with x assms show thesis
      by (subst (asm) HandleClientData_loop.simps)
         (auto split: frame_status.splits sum.splits bool.splits run.splits intro: continue)
  qed
qed

lemma HandleClientData_loop_Done:
  "HandleClientData_loop P b r c s = Done (k, c', s') \<Longrightarrow>
   fd c' = fd c \<and> (\<exists>tp js n. s' = s\<lparr>thread_pool := tp, jobs := jobs s @ js, next_job := n\<rparr> \<and> (fst \<circ> snd) ` set js \<subseteq> {r})"
proof (induction "length (read_buffer c)" arbitrary: c s rule: less_induct)
  case less
  from less.prems show ?case
  proof (cases rule: HandleClientData_loop_cases)
    case (stop st d)
    then have "s' = s\<lparr>thread_pool := thread_pool s, jobs := jobs s @ [], next_job := next_job s\<rparr>" by simp
    with ExtractFrame_buffer(2) [OF stop(1)] show ?thesis
      by (intro conjI exI [of _ "thread_pool s"] exI [of _ "[]"] exI [of _ "next_job s"]) simp_all
  next
    case (continue frame c1 request s1)
    from less.hyps [OF ExtractFrame_consumes [OF continue(1)] continue(3)] obtain tp js n where
      2: "fd c' = fd c1" "s' = s1\<lparr>thread_pool := tp, jobs := jobs s1 @ js, next_job := n\<rparr>"
      "(fst \<circ> snd) ` set js \<subseteq> {r}" by auto
    from HandleRpcRequest_Done [OF continue(2)] obtain tp1 js1 n1 where
      1: "s1 = s\<lparr>thread_pool := tp1, jobs := jobs s @ js1, next_job := n1\<rparr>" "(fst \<circ> snd) ` set js1 \<subseteq> {r}"
      by auto
    from 1 2 have "s' = s\<lparr>thread_pool := tp, jobs := jobs s @ (js1 @ js), next_job := n\<rparr>
        \<and> (fst \<circ> snd) ` set (js1 @ js) \<subseteq> {r}" by auto
    with 2(1) ExtractFrame_buffer(2) [OF continue(1)] show ?thesis by metis
  qed
qed

lemma HandleClientData_inv:
  assumes "HandleClientData P b rs f s = Done s'" and inv: "cycle_inv s"
  shows "cycle_inv s'"
proof (cases "conns s f")
  case None
  with assms show ?thesis by (auto simp: HandleClientData_def GetConnection_def RemoveConnection_inv)
next
  case (Some r)
  with assms(1) obtain ok c rs' where rd: "Read rs (heap s r) = Done (ok, c, rs')"
    by (auto simp: HandleClientData_def GetConnection_def split: run.splits)
  note fdc = Read_Done(3) [OF rd]
  have live: "live s r" using Some by (rule live_conns)
  show ?thesis
  proof (cases ok)
    case False
    with assms(1) Some rd have "s' = release r (RemoveConnection f (s\<lparr>heap := (heap s)(r := c)\<rparr>))"
      by (simp add: HandleClientData_def GetConnection_def)
    then show ?thesis
      using live_sole [OF inv live]
      by (simp add: release_inv RemoveConnection_inv RemoveConnection_sole heap_inv [OF inv fdc] heap_sole [OF fdc])
  next
    case True
    with assms(1) Some rd obtain keep c' s1 where lp: "HandleClientData_loop P b r c s = Done (keep, c', s1)"
      and s': "s' = release r (if keep then s1\<lparr>heap := (heap s1)(r := c')\<rparr>
                 else RemoveConnection f (s1\<lparr>heap := (heap s1)(r := c')\<rparr>))"
      by (auto simp: HandleClientData_def GetConnection_def Let_def split: run.splits)
    from HandleClientData_loop_Done [OF lp] fdc obtain tp js n where
      1: "fd c' = fd (heap s r)" "s1 = s\<lparr>thread_pool := tp, jobs := jobs s @ js, next_job := n\<rparr>"
      "(fst \<circ> snd) ` set js \<subseteq> {r}" by auto
    have sub: "(fst \<circ> snd) ` set (jobs s @ js) \<subseteq> Collect (live s)"
    proof -
      have "(fst \<circ> snd) ` set (jobs s) \<subseteq> Collect (live s)" unfolding live_def by blast
      moreover have "(fst \<circ> snd) ` set js \<subseteq> Collect (live s)" using 1(3) live by blast
      ultimately show ?thesis by (simp add: image_Un)
    qed
    have i1: "cycle_inv s1" "sole_owner s1 r" "fd c' = fd (heap s1 r)"
      using jobs_inv [OF inv sub] live_sole [OF inv live] 1 by simp_all
    then show ?thesis
      unfolding s' by (simp add: release_inv RemoveConnection_inv RemoveConnection_sole heap_inv heap_sole)
  qed
qed

lemma HandleNewConnection_inv:
  assumes inv: "cycle_inv s" and law: "\<And>f a b. res = Acc f a b \<Longrightarrow> 0 \<le> f \<and> f \<notin> open_fds s"
  shows "cycle_inv (HandleNewConnection res s)"
proof (cases res)
  case (Acc f nonblock_ok epoll_ok)
  have f: "0 \<le> f" "f \<notin> open_fds s" using law Acc by auto
  show ?thesis
  proof (cases nonblock_ok)
    case False
    with Acc f have "HandleNewConnection res s = s\<lparr>open_fds := open_fds s\<rparr>"
      by (simp add: HandleNewConnection_def Let_def)
    with inv show ?thesis by simp
  next
    case True
    let ?r = "fresh_ref s"
    let ?t = "s\<lparr>open_fds := insert f (open_fds s), heap := (heap s)(?r := new_connection f), fresh_ref := ?r + 1,
                 conns := (conns s)(f \<mapsto> ?r), interest := insert f (interest s)\<rparr>"
    note old = owner_fd [OF inv]
    have lv: "live ?t r \<Longrightarrow> r = ?r \<or> live s r" for r
      unfolding live_def by (auto split: if_splits)
    have fds: "fd (heap ?t r) = (if r = ?r then f else fd (heap s r))" for r
      by (simp add: new_connection_def)
    have "f \<notin> listen_fds s" using listen_open [OF inv] f by blast
    have "owner_inv ?t"
      unfolding owner_inv_def
    proof (intro conjI allI impI)
      fix g r assume g: "conns ?t g = Some r"
      show "fd (heap ?t r) = g"
      proof (cases "g = f")
        case False
        with g have "conns s g = Some r" by simp
        with owner_key [OF inv this] old [OF live_conns [OF this]] show ?thesis unfolding fds by simp
      qed (use g in \<open>simp add: new_connection_def\<close>)
    next
      fix r assume "live ?t r"
      with lv old f \<open>f \<notin> listen_fds s\<close>
      show "r < fresh_ref ?t" "0 \<le> fd (heap ?t r)" "fd (heap ?t r) \<in> open_fds ?t - listen_fds ?t"
        unfolding fds by (auto simp: less_Suc_eq)
    next
      fix r r' assume l: "live ?t r" "live ?t r'" and e: "fd (heap ?t r) = fd (heap ?t r')"
      note inj = owner_inj [OF inv, of r r']
      have "live s x \<Longrightarrow> fd (heap s x) \<noteq> f" for x using old f by auto
      with e inj lv [OF l(1)] lv [OF l(2)] show "r = r'"
        unfolding fds by (metis (full_types))
    qed
    moreover have "epoll_inv ?t"
      using interest_dom [OF inv] listen_open [OF inv] unfolding epoll_inv_def by auto
    ultimately have t: "cycle_inv ?t" by (simp add: cycle_inv_def)
    have conn: "AddConnection (heap ?t) ?r (conns s) = (conns s)(f \<mapsto> ?r)"
      by (simp add: AddConnection_def new_connection_def)
    have lt: "live ?t ?r" by (rule live_conns [of _ f]) simp
    let ?u = "s\<lparr>open_fds := insert f (open_fds s), heap := (heap s)(?r := new_connection f), fresh_ref := ?r + 1,
                 conns := (conns s)(f \<mapsto> ?r)\<rparr>"
    have "f \<notin> interest s"
    proof
      assume "f \<in> interest s"
      then obtain r where "conns s f = Some r"
        using interest_dom(2) [OF inv] \<open>f \<notin> listen_fds s\<close> by blast
      with owner_key [OF inv] old [OF live_conns] f show False by fastforce
    qed
    then have "RemoveConnection f ?u = RemoveConnection f ?t"
      by (simp add: RemoveConnection_def)
    then have "HandleNewConnection res s = release ?r (if epoll_ok then ?t else RemoveConnection f ?t)"
      using Acc True conn by (simp add: HandleNewConnection_def Let_def)
    with release_inv RemoveConnection_inv RemoveConnection_sole live_sole [OF t lt] t show ?thesis
      by simp
  qed
qed (simp add: HandleNewConnection_def inv)

definition kernel_ok :: "epoll_event \<Rightarrow> server \<Rightarrow> bool" where
  "kernel_ok ev s \<longleftrightarrow> (case accepted ev of Acc_error \<Rightarrow> True | Acc f _ _ \<Rightarrow> 0 \<le> f \<and> f \<notin> open_fds s)"

lemma HandleEpollEvent_inv:
  assumes "HandleEpollEvent P b ev s = Done s'" and "cycle_inv s" and "kernel_ok ev s"
  shows "cycle_inv s'"
proof (cases "has_error ev")
  case True
  with assms show ?thesis
    by (cases "conns s (data_fd ev)")
       (auto simp: HandleEpollEvent_def Let_def RemoveConnection_inv
         intro!: release_inv RemoveConnection_sole live_sole live_conns)
next
  case False
  show ?thesis
  proof (cases "data_fd ev \<in> listen_fds s")
    case True
    with assms False have "s' = HandleNewConnection (accepted ev) s"
      by (simp add: HandleEpollEvent_def Let_def)
    with assms(2,3) show ?thesis by (auto simp: kernel_ok_def intro!: HandleNewConnection_inv)
  next
    case F: False
    with assms False show ?thesis
      by (auto simp: HandleEpollEvent_def Let_def split: if_splits intro: HandleClientData_inv)
  qed
qed

section \<open>The server as a state machine\<close>

text \<open>
  A step is one event handled by the loop, the execution of one submitted closure by a worker
  (which may return or throw; \<open>packaged_task\<close> swallows the exception), or anything the pool does
  on its own. When a closure runs is the pool's choice, so any submitted one may.
\<close>

definition end_job :: "nat \<times> conn_ref \<times> rpc_request \<Rightarrow> server \<Rightarrow> server" where
  "end_job j s = release (fst (snd j)) (s\<lparr>jobs := remove1 j (jobs s)\<rparr>)"

inductive cycle_step :: "platform \<Rightarrow> service_table \<Rightarrow> server \<Rightarrow> server \<Rightarrow> bool" for P services where
  c_event: "kernel_ok ev s \<Longrightarrow> HandleEpollEvent P b ev s = Done s' \<Longrightarrow> cycle_step P services s s'"
| c_answer: "(n, r, request) \<in> set (jobs s) \<Longrightarrow>
     HandleRpcRequestSync P services dis ws (heap s r) request = Done (ok, out, c, ws') \<Longrightarrow>
     cycle_step P services s (end_job (n, r, request) (s\<lparr>heap := (heap s)(r := c)\<rparr>))"
| c_throw: "(n, r, request) \<in> set (jobs s) \<Longrightarrow>
     HandleRpcRequestSync P services dis ws (heap s r) request = Fault e \<Longrightarrow> thrown e \<Longrightarrow>
     cycle_step P services s (end_job (n, r, request) s)"
| c_pool: "thread_pool s = Some p \<Longrightarrow> pool_step p q \<Longrightarrow>
     cycle_step P services s (s\<lparr>thread_pool := Some q\<rparr>)"
| c_stop: "cycle_step P services s (Stop s)"

definition cycle_init :: "server \<Rightarrow> bool" where
  "cycle_init s \<longleftrightarrow> conns s = Map.empty \<and> jobs s = [] \<and> interest s = listen_fds s \<and> listen_fds s \<subseteq> open_fds s"

lemma Write_response_fd:
  "Write_response z mem dis ws resp c = Done (ok, out, c', ws') \<Longrightarrow> fd c' = fd c"
  by (auto simp: Write_response_def WriteFrame_def Let_def dest: Write_Done(5)
      split: prod.splits bool.splits sum.splits)

lemma HandleRpcRequestSync_fd:
  "HandleRpcRequestSync P services dis ws c request = Done (ok, out, c', ws') \<Longrightarrow> fd c' = fd c"
  by (auto simp: HandleRpcRequestSync_def SendErrorResponse_def Let_def dest: Write_response_fd
      split: if_splits sum.splits bool.splits prod.splits)

lemma running_inv: "cycle_inv (s\<lparr>running_flag := b\<rparr>) = cycle_inv s"
  unfolding cycle_inv_def owner_inv_def epoll_inv_def live_def by simp

lemma end_job_inv:
  assumes "cycle_inv s" and "j \<in> set (jobs s)"
  shows "cycle_inv (end_job j s)"
proof -
  let ?r = "fst (snd j)"
  have "live s ?r" using assms(2) unfolding live_def by (auto intro: image_eqI [of _ _ j])
  then have sole: "sole_owner s ?r" using live_sole assms(1) by blast
  have sub: "(fst \<circ> snd) ` set (remove1 j (jobs s)) \<subseteq> Collect (live s)"
    using set_remove1_subset [of j "jobs s"] unfolding live_def by fastforce
  show ?thesis
    using release_inv jobs_inv [OF assms(1) sub, where tp = "thread_pool s" and n = "next_job s"] sole
    by (simp add: end_job_def)
qed

interpretation cycle: invariant_system cycle_init "cycle_step P services" cycle_inv for P services
proof
  fix s assume "cycle_init s"
  then show "cycle_inv s"
    by (auto simp: cycle_init_def cycle_inv_def owner_inv_def epoll_inv_def live_def)
next
  fix s t assume "cycle_step P services s t" and inv: "cycle_inv s"
  then show "cycle_inv t"
  proof cases
    case (c_event ev b)
    with inv show ?thesis by (auto intro: HandleEpollEvent_inv)
  next
    case (c_answer n r request dis ws ok out c ws')
    with heap_inv [OF inv HandleRpcRequestSync_fd [OF c_answer(3)]] show ?thesis
      by (auto intro: end_job_inv)
  next
    case (c_throw n r request dis ws e)
    with inv show ?thesis by (auto intro: end_job_inv)
  next
    case (c_pool p q)
    have "(fst \<circ> snd) ` set (jobs s) \<subseteq> Collect (live s)" unfolding live_def by blast
    with jobs_inv(1) [OF inv this, where tp = "Some q" and n = "next_job s"] c_pool show ?thesis by simp
  next
    case c_stop
    with inv show ?thesis by (simp add: Stop_def running_inv)
  qed
qed

section \<open>From bytes to submitted requests\<close>

text \<open>A pool that takes every task: not stopped, and with no bound on its queue.\<close>

definition accepting :: "server \<Rightarrow> bool" where
  "accepting s \<longleftrightarrow> (\<exists>p. thread_pool s = Some p \<and> \<not> stop p \<and> max_queue_size (config p) = 0)"

definition submitted :: "conn_ref \<Rightarrow> rpc_request list \<Rightarrow> server \<Rightarrow> server \<Rightarrow> bool" where
  "submitted r requests s s' \<longleftrightarrow>
     (\<exists>tp js n. s' = s\<lparr>thread_pool := tp, jobs := jobs s @ js, next_job := n\<rparr>
        \<and> map snd js = map (Pair r) requests) \<and> accepting s'"

lemma submitted_Nil: "accepting s \<Longrightarrow> submitted r [] s s"
  unfolding submitted_def by (auto intro!: exI [of _ "thread_pool s"] exI [of _ "[]"] exI [of _ "next_job s"])

lemma submitted_append:
  assumes "submitted r xs s t" and "submitted r ys t u"
  shows "submitted r (xs @ ys) s u"
proof -
  obtain tp js n where 1: "t = s\<lparr>thread_pool := tp, jobs := jobs s @ js, next_job := n\<rparr>" "map snd js = map (Pair r) xs"
    using assms(1) unfolding submitted_def by blast
  obtain tp' js' n' where 2: "u = t\<lparr>thread_pool := tp', jobs := jobs t @ js', next_job := n'\<rparr>" "map snd js' = map (Pair r) ys"
    using assms(2) unfolding submitted_def by blast
  have "u = s\<lparr>thread_pool := tp', jobs := jobs s @ (js @ js'), next_job := n'\<rparr>"
    using 1(1) 2(1) by simp
  moreover have "map snd (js @ js') = map (Pair r) (xs @ ys)" using 1(2) 2(2) by simp
  ultimately show ?thesis using assms(2) unfolding submitted_def by blast
qed

lemma submitted_heap: "submitted r xs s s' \<Longrightarrow> heap s' = heap s \<and> conns s' = conns s \<and> accepting s'"
  unfolding submitted_def by auto

lemma HandleRpcRequest_accepting:
  assumes "accepting s"
  shows "\<exists>s'. HandleRpcRequest P b r request s = Done s' \<and> submitted r [request] s s'"
proof -
  obtain p where p: "thread_pool s = Some p" "\<not> stop p" "max_queue_size (config p) = 0"
    using assms unfolding accepting_def by blast
  let ?t = "\<lparr>task_id = next_job s, priority = NORMAL, task_body = b\<rparr>"
  let ?e = "enqueue (can_spawn P) ?t p"
  have e: "fst ?e = Accepted" "\<not> stop (snd ?e)" "max_queue_size (config (snd ?e)) = 0"
    using p by (simp_all add: enqueue_def adjust_thread_count_def Let_def)
  let ?s = "s\<lparr>thread_pool := Some (snd ?e), jobs := jobs s @ [(next_job s, r, request)], next_job := next_job s + 1\<rparr>"
  have "HandleRpcRequest P b r request s = Done ?s"
    using p e by (simp add: HandleRpcRequest_def Let_def exists_def Singleton_enqueue_def getInstance_def
        apsnd_def map_prod_def case_prod_unfold)
  moreover have "submitted r [request] s ?s"
    using e(2,3) unfolding submitted_def accepting_def
    by (intro conjI exI [of _ "Some (snd ?e)"] exI [of _ "[(next_job s, r, request)]"] exI [of _ "next_job s + 1"]) simp_all
  ultimately show ?thesis by blast
qed

text \<open>The frames the abstract cutter finds in the buffer are submitted, in their order.\<close>

lemma HandleClientData_loop_drain:
  assumes "drain (frame_cut (zlib P) (memory P)) (read_buffer c) = (ds, rest, False)"
    and "list_all2 (\<lambda>d request. RpcRequest_Deserialize d new_request = Inr (True, request)) ds requests"
    and "accepting s"
  shows "\<exists>s'. HandleClientData_loop P b r c s = Done (True, c\<lparr>read_buffer := rest\<rparr>, s') \<and> submitted r requests s s'"
  using assms
proof (induction "length (read_buffer c)" arbitrary: c ds requests s rule: less_induct)
  case less
  let ?cut = "frame_cut (zlib P) (memory P) (read_buffer c)"
  show ?case
  proof (cases ?cut)
    case Need
    with less.prems(1,2) have "ds = []" "rest = read_buffer c" "requests = []"
      by (auto simp: framing.drain_simps)
    with ExtractFrame_Need [OF Need, of "[]"] submitted_Nil [OF less.prems(3)] show ?thesis
      by (subst HandleClientData_loop.simps) simp
  next
    case Bad
    with less.prems(1) show ?thesis by (simp add: framing.drain_simps)
  next
    case (Got d b')
    let ?c = "c\<lparr>read_buffer := b'\<rparr>"
    from Got less.prems(1) obtain ds' where ds: "ds = d # ds'"
      and dr: "drain (frame_cut (zlib P) (memory P)) (read_buffer ?c) = (ds', rest, False)"
      by (auto simp: framing.drain_simps split: prod.splits)
    from less.prems(2) ds obtain q qs where req: "requests = q # qs"
      and q: "RpcRequest_Deserialize d new_request = Inr (True, q)"
      and qs: "list_all2 (\<lambda>d request. RpcRequest_Deserialize d new_request = Inr (True, request)) ds' qs"
      by (auto simp: list_all2_Cons1)
    obtain s1 where s1: "HandleRpcRequest P (b q) r q s = Done s1" "submitted r [q] s s1"
      using HandleRpcRequest_accepting [OF less.prems(3)] by blast
    note x = ExtractFrame_Got [OF Got, of "[]"]
    have "length (read_buffer ?c) < length (read_buffer c)" using ExtractFrame_consumes [OF x] .
    from less.hyps [OF this dr qs] submitted_heap [OF s1(2)] obtain s' where
      s': "HandleClientData_loop P b r ?c s1 = Done (True, ?c\<lparr>read_buffer := rest\<rparr>, s')" "submitted r qs s1 s'"
      by blast
    have "HandleClientData_loop P b r c s = Done (True, c\<lparr>read_buffer := rest\<rparr>, s')"
      using x q s1(1) s'(1) by (subst HandleClientData_loop.simps) simp
    with submitted_append [OF s1(2) s'(2)] req show ?thesis by auto
  qed
qed

text \<open>
  Each readiness notification finds one chunk waiting in the socket, of whatever length, and the
  peer still there.
\<close>

fun receive :: "platform \<Rightarrow> (rpc_request \<Rightarrow> body) \<Rightarrow> int \<Rightarrow> bytes list \<Rightarrow> server \<Rightarrow> server run" where
  "receive P b f [] s = Done s"
| "receive P b f (chunk # chunks) s =
     (case HandleClientData P b (socket_reads chunk False) f s of
        Blocked \<Rightarrow> Blocked | Fault e \<Rightarrow> Fault e | Done s \<Rightarrow> receive P b f chunks s)"

lemma HandleClientData_chunk:
  assumes "conns s f = Some r" and "cstate (heap s r) = CONNECTED" and "fd (heap s r) = f"
    and "\<not> fin \<or> \<not> READ_CHUNK dvd length chunk"
    and "length (read_buffer (heap s r) @ chunk) \<le> MAX_BUFFER_SIZE"
    and "drain (frame_cut (zlib P) (memory P)) (read_buffer (heap s r) @ chunk) = (ds, rest, False)"
    and "list_all2 (\<lambda>d request. RpcRequest_Deserialize d new_request = Inr (True, request)) ds requests"
    and "accepting s"
  shows "\<exists>s' s1. HandleClientData P b (socket_reads chunk fin) f s = Done s' \<and> submitted r requests s s1
     \<and> s' = s1\<lparr>heap := (heap s)(r := (heap s r)\<lparr>read_buffer := rest\<rparr>)\<rparr>"
proof -
  let ?c = "(heap s r)\<lparr>read_buffer := read_buffer (heap s r) @ chunk\<rparr>"
  obtain rs where rd: "Read (socket_reads chunk fin) (heap s r) = Done (True, ?c, rs)"
    using Read_socket [OF assms(2,5), of fin] assms(4) by (cases "READ_CHUNK dvd length chunk") (simp_all add: Let_def)
  have dr: "drain (frame_cut (zlib P) (memory P)) (read_buffer ?c) = (ds, rest, False)" using assms(6) by simp
  from HandleClientData_loop_drain [OF dr assms(7,8)] obtain s1 where
    s1: "HandleClientData_loop P b r ?c s = Done (True, ?c\<lparr>read_buffer := rest\<rparr>, s1)" "submitted r requests s s1"
    by blast
  let ?s = "s1\<lparr>heap := (heap s)(r := (heap s r)\<lparr>read_buffer := rest\<rparr>)\<rparr>"
  have "referenced ?s r" using assms(1,3) submitted_heap [OF s1(2)] by (simp add: referenced_def)
  then have "HandleClientData P b (socket_reads chunk fin) f s = Done ?s"
    using assms(1) rd s1(1) submitted_heap [OF s1(2)]
    by (simp add: HandleClientData_def GetConnection_def Let_def release_def)
  with s1(2) show ?thesis by blast
qed

lemma receive_drain:
  assumes "conns s f = Some r" and "cstate (heap s r) = CONNECTED" and "fd (heap s r) = f"
    and "length (read_buffer (heap s r) @ concat chunks) \<le> MAX_BUFFER_SIZE"
    and "drain (frame_cut (zlib P) (memory P)) (read_buffer (heap s r)) = ([], read_buffer (heap s r), False)"
    and "drain (frame_cut (zlib P) (memory P)) (read_buffer (heap s r) @ concat chunks) = (ds, rest, False)"
    and "list_all2 (\<lambda>d request. RpcRequest_Deserialize d new_request = Inr (True, request)) ds requests"
    and "accepting s"
  shows "\<exists>s'. receive P b f chunks s = Done s' \<and> map snd (jobs s') = map snd (jobs s) @ map (Pair r) requests
     \<and> conns s' = conns s \<and> heap s' r = (heap s r)\<lparr>read_buffer := rest\<rparr>"
  using assms
proof (induction chunks arbitrary: s ds requests)
  case Nil
  then show ?case by (auto simp: map_idI)
next
  case (Cons chunk chunks)
  let ?cut = "frame_cut (zlib P) (memory P)" and ?b = "read_buffer (heap s r)"
  obtain ds1 r1 dead where d1: "drain ?cut (?b @ chunk) = (ds1, r1, dead)" by (cases "drain ?cut (?b @ chunk)")
  have split: "drain ?cut ((?b @ chunk) @ concat chunks) = (ds, rest, False)" using Cons.prems(6) by simp
  then have alive: "\<not> dead" and "\<exists>ds2. drain ?cut (r1 @ concat chunks) = (ds2, rest, False) \<and> ds = ds1 @ ds2"
    unfolding framing.drain_append [of "zlib P" "memory P" "?b @ chunk" "concat chunks"] d1
    by (auto split: if_splits prod.splits)
  then obtain ds2 where d2: "drain ?cut (r1 @ concat chunks) = (ds2, rest, False)" "ds = ds1 @ ds2" by blast
  from Cons.prems(7) d2(2) obtain q1 q2 where q: "requests = q1 @ q2"
    "list_all2 (\<lambda>d request. RpcRequest_Deserialize d new_request = Inr (True, request)) ds1 q1"
    "list_all2 (\<lambda>d request. RpcRequest_Deserialize d new_request = Inr (True, request)) ds2 q2"
    by (auto simp: list_all2_append1)
  have d1': "drain ?cut (?b @ chunk) = (ds1, r1, False)" using d1 alive by simp
  have dr: "drain ?cut r1 = ([], r1, False)" and len: "length r1 \<le> length (?b @ chunk)"
    using framing.drain_rest [OF d1'] by simp_all
  have "length (?b @ chunk) \<le> MAX_BUFFER_SIZE" using Cons.prems(4) by simp
  from HandleClientData_chunk [OF Cons.prems(1,2,3) _ this d1' q(2) Cons.prems(8), of False b] obtain t s1 where
    t: "HandleClientData P b (socket_reads chunk False) f s = Done t" "submitted r q1 s s1"
       "t = s1\<lparr>heap := (heap s)(r := (heap s r)\<lparr>read_buffer := r1\<rparr>)\<rparr>" by blast
  have tj: "map snd (jobs t) = map snd (jobs s) @ map (Pair r) q1" "conns t = conns s" "accepting t"
    using t(2,3) unfolding submitted_def accepting_def by auto
  have hr: "heap t r = (heap s r)\<lparr>read_buffer := r1\<rparr>" using t(3) by simp
  have "\<exists>s'. receive P b f chunks t = Done s' \<and> map snd (jobs s') = map snd (jobs t) @ map (Pair r) q2
     \<and> conns s' = conns t \<and> heap s' r = (heap t r)\<lparr>read_buffer := rest\<rparr>"
    by (rule Cons.IH) (use Cons.prems len tj hr dr d2 q(3) in auto)
  with t(1) tj hr q(1) show ?case by auto
qed

lemma Write_request_sealed:
  assumes "zstd_lossless z" and "request_fits mem q" and "fits_wire z mem (length (request_image q))"
    and "Write_request z mem dis ws q c = Done (True, wire, c', ws')"
  shows "\<exists>enc. frame_ok MAX_FRAME_SIZE z mem (request_image q) \<and> sealed z mem dis (request_image q) enc
     \<and> wire = wire_frame enc"
proof -
  note ok = request_frame_ok [OF assms(1-3)]
  from sealed_ex [OF ok] obtain enc where enc: "sealed z mem dis (request_image q) enc" by blast
  have "Write ws (wire_frame enc) c = Done (True, wire, c', ws')"
    using assms(4) by (simp add: Write_request_def RpcRequest_Serialize_eq [OF assms(2)] WriteFrame_sealed [OF enc])
  from Write_Done(2) [OF this] ok enc show ?thesis by blast
qed

text \<open>The client's \<open>Write(request)\<close> returned true and put \<open>wire\<close> on the connection.\<close>

definition sent_by_client :: "platform \<Rightarrow> rpc_request \<Rightarrow> bytes \<Rightarrow> bool" where
  "sent_by_client P q wire \<longleftrightarrow> request_fits (memory P) q \<and> fits_wire (zlib P) (memory P) (length (request_image q))
     \<and> (\<exists>dis ws c c' ws'. Write_request (zlib P) (memory P) dis ws q c = Done (True, wire, c', ws'))"

lemma sent_drain:
  assumes "zstd_lossless (zlib P)" and "list_all2 (sent_by_client P) qs wires"
  shows "drain (frame_cut (zlib P) (memory P)) (concat wires) = (map request_image qs, [], False)"
proof -
  have "\<exists>encs. wires = map wire_frame encs \<and> list_all2 (\<lambda>d enc. frame_ok MAX_FRAME_SIZE (zlib P) (memory P) d
      \<and> (\<exists>dis. sealed (zlib P) (memory P) dis d enc)) (map request_image qs) encs"
    using assms(2)
  proof (induction rule: list_all2_induct)
    case (Cons q qs wire wires)
    from Cons(1) Write_request_sealed [OF assms(1)] obtain dis enc where
      e: "frame_ok MAX_FRAME_SIZE (zlib P) (memory P) (request_image q)"
      "sealed (zlib P) (memory P) dis (request_image q) enc" "wire = wire_frame enc"
      unfolding sent_by_client_def by blast
    from Cons(3) obtain encs where "wires = map wire_frame encs" "list_all2 (\<lambda>d enc.
      frame_ok MAX_FRAME_SIZE (zlib P) (memory P) d \<and> (\<exists>dis. sealed (zlib P) (memory P) dis d enc)) (map request_image qs) encs"
      by blast
    with e show ?case by (intro exI [of _ "enc # encs"]) auto
  qed simp
  then show ?thesis using drain_sealed by blast
qed

lemma sent_deserialize:
  assumes "list_all2 (sent_by_client P) qs wires"
  shows "list_all2 (\<lambda>d request. RpcRequest_Deserialize d new_request = Inr (True, request)) (map request_image qs) qs"
  using assms
proof (induction rule: list_all2_induct)
  case (Cons q qs wire wires)
  then have "request_fits (memory P) q" by (simp add: sent_by_client_def)
  with Cons request_codec.des_ser [OF this] show ?case by (simp add: RpcRequest_Serialize_eq)
qed simp

section \<open>A concrete server\<close>

definition sample_platform :: platform where
  "sample_platform = \<lparr>zlib = stored_zstd, memory = 1000, hardware_concurrency = 2, can_spawn = True\<rparr>"

definition sample_request :: rpc_request where
  "sample_request = \<lparr>sequence_id = 7, service_name = str ''RpcService'', method_name = str ''Echo'', payload = str ''hi''\<rparr>"

definition sample_server :: server where
  "sample_server = \<lparr>heap = (\<lambda>_. new_connection (-1)), fresh_ref = 0, conns = Map.empty, interest = {3},
     open_fds = {0, 1, 2, 3}, listen_fds = {3}, running_flag = True,
     thread_pool = Some (ThreadPool_threads 2), jobs = [], next_job = 0\<rparr>"

definition sample_connected :: server where
  "sample_connected = HandleNewConnection (Acc 5 True True) sample_server"

lemma sample_connected_fields:
  "conns sample_connected = [5 \<mapsto> 0]" "heap sample_connected 0 = new_connection 5"
  "accepting sample_connected" "jobs sample_connected = []" "listen_fds sample_connected = {3}"
  by (simp_all add: sample_connected_def HandleNewConnection_def sample_server_def Let_def release_def
      referenced_def AddConnection_def new_connection_def accepting_def ThreadPool_threads_def ThreadPool_config_def)

lemma sample_sent: "\<exists>wire. sent_by_client sample_platform sample_request wire \<and> wire \<noteq> [] \<and> length wire \<le> 4000"
proof -
  let ?z = stored_zstd and ?q = sample_request
  have fits: "request_fits 1000 ?q" "fits_wire ?z 1000 (length (request_image ?q))"
    by (simp_all add: request_fits_def fits_wire_def length_request_image sample_request_def guard_simps)
       (simp_all add: stored_zstd_def)
  note ok = request_frame_ok [OF stored_zstd_lossless fits]
  have ok': "frame_ok 3000 ?z 1000 (request_image ?q)"
    using ok by (simp add: frame_ok_def length_request_image sample_request_def) (simp add: stored_zstd_def)
  obtain enc ws' where enc: "sealed ?z 1000 (\<lambda>_. 0) (request_image ?q) enc"
    and w: "WriteFrame ?z 1000 (\<lambda>_. 0) [Wr (4 + MAX_FRAME_SIZE)] (request_image ?q) (new_connection 5)
      = Done (True, wire_frame enc, new_connection 5, ws')"
    using WriteFrame_completes [OF ok, of "new_connection 5" "[Wr (4 + MAX_FRAME_SIZE)]" "\<lambda>_. 0"]
    by (auto simp: new_connection_def no_error_def)
  have "Write_request ?z 1000 (\<lambda>_. 0) [Wr (4 + MAX_FRAME_SIZE)] ?q (new_connection 5)
      = Done (True, wire_frame enc, new_connection 5, ws')"
    by (simp add: Write_request_def RpcRequest_Serialize_eq [OF fits(1)] w)
  with fits have "sent_by_client sample_platform ?q (wire_frame enc)"
    unfolding sent_by_client_def sample_platform_def platform.simps by (intro conjI exI) assumption+
  moreover have "wire_frame enc \<noteq> []" by (simp add: wire_frame_def)
  moreover have "length (wire_frame enc) \<le> 4000" using sealed_length(1) [OF ok' enc] by simp
  ultimately show ?thesis by blast
qed

text \<open>The same server, after it has accepted a client and received one request.\<close>

definition sample_accept :: epoll_event where
  "sample_accept = \<lparr>data_fd = 3, has_error = False, has_input = True, accepted = Acc 5 True True, reads = []\<rparr>"

lemma sample_accepted:
  "kernel_ok sample_accept sample_server" "HandleEpollEvent P b sample_accept sample_server = Done sample_connected"
  by (simp_all add: sample_accept_def kernel_ok_def sample_server_def HandleEpollEvent_def sample_connected_def)

lemma sample_received:
  "\<exists>ev t. kernel_ok ev sample_connected \<and> HandleEpollEvent sample_platform b ev sample_connected = Done t
     \<and> map snd (jobs t) = [(0, sample_request)]"
proof -
  let ?P = sample_platform
  obtain wire where wire: "sent_by_client ?P sample_request wire" "wire \<noteq> []" "length wire \<le> 4000"
    using sample_sent by blast
  have z: "zstd_lossless (zlib ?P)" by (simp add: sample_platform_def stored_zstd_lossless)
  have l: "list_all2 (sent_by_client ?P) [sample_request] [wire]" using wire(1) by simp
  have dr: "drain (frame_cut (zlib ?P) (memory ?P)) (read_buffer (heap sample_connected 0) @ wire)
      = ([request_image sample_request], [], False)"
    using sent_drain [OF z l] by (simp add: sample_connected_fields new_connection_def)
  have "\<exists>t s1. HandleClientData ?P b (socket_reads wire False) 5 sample_connected = Done t
      \<and> submitted 0 [sample_request] sample_connected s1
      \<and> t = s1\<lparr>heap := (heap sample_connected)(0 := (heap sample_connected 0)\<lparr>read_buffer := []\<rparr>)\<rparr>"
    by (rule HandleClientData_chunk [OF _ _ _ _ _ dr])
       (use wire sent_deserialize [OF l] in \<open>simp_all add: sample_connected_fields new_connection_def guard_simps\<close>)
  then obtain t where t: "HandleClientData ?P b (socket_reads wire False) 5 sample_connected = Done t"
    "map snd (jobs t) = [(0, sample_request)]"
    by (auto simp: submitted_def sample_connected_fields)
  show ?thesis
    by (intro exI [of _ "\<lparr>data_fd = 5, has_error = False, has_input = True, accepted = Acc_error, reads = socket_reads wire False\<rparr>"]
          exI [of _ t] conjI)
       (simp_all add: kernel_ok_def HandleEpollEvent_def sample_connected_fields t)
qed

lemma sample_job_reachable:
  "\<exists>s. reach cycle_init (cycle_step sample_platform Map.empty) s \<and> map snd (jobs s) = [(0, sample_request)]"
proof -
  let ?P = sample_platform
  obtain ev t where t: "kernel_ok ev sample_connected" "HandleEpollEvent ?P (\<lambda>_. Returns) ev sample_connected = Done t"
    "map snd (jobs t) = [(0, sample_request)]" using sample_received [of "\<lambda>_. Returns"] by (elim exE conjE)
  have "reach cycle_init (cycle_step ?P Map.empty) sample_server"
    by (rule reach_init) (simp add: cycle_init_def sample_server_def)
  then have "reach cycle_init (cycle_step ?P Map.empty) sample_connected"
    by (rule reach_step) (rule c_event [OF sample_accepted])
  then have "reach cycle_init (cycle_step ?P Map.empty) t"
    by (rule reach_step) (rule c_event [OF t(1,2)])
  with t(3) show ?thesis by (intro exI [of _ t] conjI)
qed

section \<open>Properties\<close>

text \<open>
  C2. A response goes to the client that sent the request: in every reachable state, whatever
  connections were opened and closed meanwhile, the connection object of a request still to be
  answered has an open descriptor, and no other connection of the table or of another request
  has the same; in particular the kernel has not given the number to a new client. epoll watches
  the descriptors of the table, and besides them only listening sockets.
\<close>

theorem descriptor_ownership:
  assumes "reach cycle_init (cycle_step P services) s" and "(n, r, request) \<in> set (jobs s)"
  shows "0 \<le> fd (heap s r) \<and> fd (heap s r) \<in> open_fds s - listen_fds s
     \<and> (\<forall>f r'. conns s f = Some r' \<longrightarrow> fd (heap s r') = f \<and> (f = fd (heap s r) \<longrightarrow> r' = r))
     \<and> (\<forall>n' r' q'. (n', r', q') \<in> set (jobs s) \<longrightarrow> fd (heap s r') = fd (heap s r) \<longrightarrow> r' = r)
     \<and> dom (conns s) \<subseteq> interest s \<and> interest s \<subseteq> dom (conns s) \<union> listen_fds s"
proof -
  note inv = cycle.reach_inv [OF assms(1)]
  have job: "(n', r', q') \<in> set (jobs s) \<Longrightarrow> live s r'" for n' r' q'
    unfolding live_def by force
  have tbl: "conns s f = Some r' \<Longrightarrow> fd (heap s r') = f \<and> (f = fd (heap s r) \<longrightarrow> r' = r)" for f r'
    using owner_key [OF inv, of f r'] owner_inj [OF inv live_conns [of s f r'] job [OF assms(2)]] by simp
  have jbs: "(n', r', q') \<in> set (jobs s) \<Longrightarrow> fd (heap s r') = fd (heap s r) \<Longrightarrow> r' = r" for n' r' q'
    using owner_inj [OF inv job job [OF assms(2)]] .
  show ?thesis
    using owner_fd [OF inv job [OF assms(2)]] tbl jbs interest_dom [OF inv] by blast
qed

theorem descriptor_ownership_witness:
  "\<exists>s. reach cycle_init (cycle_step sample_platform Map.empty) s \<and> map snd (jobs s) = [(0, sample_request)]
     \<and> fd (heap s 0) \<in> open_fds s - listen_fds s"
proof -
  obtain s where s: "reach cycle_init (cycle_step sample_platform Map.empty) s"
    "map snd (jobs s) = [(0, sample_request)]" using sample_job_reachable by (elim exE conjE)
  then obtain n where "(n, 0, sample_request) \<in> set (jobs s)" by auto
  note own = descriptor_ownership [OF s(1) this]
  show ?thesis by (intro exI [of _ s] conjI s conjunct1 [OF conjunct2 [OF own]])
qed



text \<open>The chunks in which the kernel takes the bytes of one \<open>Write\<close>.\<close>

fun write_chunks :: "write_result list \<Rightarrow> bytes \<Rightarrow> bytes list" where
  "write_chunks (Wr n # ws) data = (if data = [] then [] else take n data # write_chunks ws (drop n data))"
| "write_chunks (Wr_again # ws) data = write_chunks ws data"
| "write_chunks _ data = []"

lemma write_chunks_Nil [simp]: "write_chunks ws [] = []"
  by (induction ws "[] :: bytes" rule: write_chunks.induct) simp_all

lemma Write_loop_chunks:
  "Write_loop ws data sent c = Done (ok, out, c', ws') \<Longrightarrow>
   out = take sent data @ concat (write_chunks ws (drop sent data))"
proof (induction ws arbitrary: sent)
  case Nil
  then show ?case by (subst (asm) Write_loop.simps) (auto split: if_splits)
next
  case (Cons w ws)
  show ?case
  proof (cases "sent < length data")
    case False
    with Cons.prems show ?thesis by (subst (asm) Write_loop.simps) (cases w; auto)
  next
    case True
    show ?thesis
    proof (cases w)
      case (Wr n)
      with Cons.prems True have "Write_loop ws data (sent + n) c = Done (ok, out, c', ws')"
        by (subst (asm) Write_loop.simps) simp
      from Cons.IH [OF this] True Wr show ?thesis by (simp add: take_add add.commute [of n])
    next
      case Wr_again
      with Cons.prems True have "Write_loop ws data sent c = Done (ok, out, c', ws')"
        by (subst (asm) Write_loop.simps) simp
      from Cons.IH [OF this] Wr_again show ?thesis by simp
    qed (use Cons.prems True in \<open>subst (asm) Write_loop.simps, simp\<close>)+
  qed
qed

lemma Write_chunks: "Write ws data c = Done (ok, out, c', ws') \<Longrightarrow> ok \<Longrightarrow> concat (write_chunks ws data) = data"
  using Write_loop_chunks [of ws data 0 c ok out c' ws'] Write_Done(2) [of ws data c ok out c' ws']
  by (auto simp: Write_def split: if_splits)

lemma length_byte:
  assumes "n < 2 ^ 32"
  shows "unat (ucast (drop_bit k (of_nat n :: u32)) :: byte) = n div 2 ^ k mod 256"
proof -
  have "unat (of_nat n :: u32) = n" using assms by (rule unat_of_nat_u32)
  then show ?thesis
    unfolding unsigned_ucast_eq unsigned_drop_bit_eq using assms
    by (simp add: take_bit_eq_mod drop_bit_eq_div)
qed

lemma length_bytes_small:
  assumes "n < 65536"
  shows "\<exists>b1 b0. rev (le32 (of_nat n :: u32)) = [0, 0, b1, b0] \<and> unat b1 = n div 256"
proof -
  have "n < 2 ^ 32" using assms by simp
  from length_byte [OF this, of 24] length_byte [OF this, of 16] length_byte [OF this, of 8] assms
  show ?thesis
    by (auto simp: le32_def unsigned_eq_0_iff)
qed

text \<open>\<open>announced\<close> of a stream whose first four bytes are \<open>0, 0, 0, b\<close>.\<close>

lemma announced_low: "announced (0 # 0 # 0 # b # bs) = unat b"
proof -
  have "ntohl (of_le32 [0, 0, 0, b]) = of_le32 (rev [0, 0, 0, b])" by (rule ntohl_of_le32) simp
  then have "ntohl (of_le32 [0, 0, 0, b]) = ucast b" by simp
  moreover have "take 4 (0 # 0 # 0 # b # bs) = [0, 0, 0, b]" by simp
  ultimately have "announced (0 # 0 # 0 # b # bs) = unat (ucast b :: u32)"
    unfolding announced_def by (simp only:)
  then show ?thesis using unat_byte_bound [of b] by (simp add: unsigned_ucast_eq take_bit_nat_eq_self)
qed

lemma interleaving:
  assumes "cstate c = CONNECTED" and "length enc1 < 65536" and "length enc2 < 65536"
  shows "\<exists>ws1 ws2 stream.
     Write ws1 (wire_frame enc1) c = Done (True, wire_frame enc1, c, [])
     \<and> Write ws2 (wire_frame enc2) c = Done (True, wire_frame enc2, c, [])
     \<and> stream \<in> shuffles (write_chunks ws1 (wire_frame enc1)) (write_chunks ws2 (wire_frame enc2))
     \<and> announced (concat stream) = length enc2 div 256"
proof -
  let ?w1 = "wire_frame enc1" and ?w2 = "wire_frame enc2"
  obtain b1 b0 where w2: "?w2 = [0, 0, b1, b0] @ enc2" and b1: "unat b1 = length enc2 div 256"
    using length_bytes_small [OF assms(3)] by (auto simp: wire_frame_def)
  obtain b1' b0' where w1: "?w1 = [0, 0, b1', b0'] @ enc1"
    using length_bytes_small [OF assms(2)] by (auto simp: wire_frame_def)
  let ?ws1 = "[Wr 1, Wr (length ?w1 - 1)]" and ?ws2 = "[Wr (length ?w2)]"
  let ?s = "[take 1 ?w1, ?w2, drop 1 ?w1]"
  have "Write ?ws1 ?w1 c = Done (True, ?w1, c, [])" "Write ?ws2 ?w2 c = Done (True, ?w2, c, [])"
    using assms(1) by (simp_all add: Write_def Write_loop.simps w1 w2)
  moreover have "write_chunks ?ws1 ?w1 = [take 1 ?w1, drop 1 ?w1]" "write_chunks ?ws2 ?w2 = [?w2]"
    by (simp_all add: w1 w2)
  then have "?s \<in> shuffles (write_chunks ?ws1 ?w1) (write_chunks ?ws2 ?w2)"
    by (simp add: Cons_in_shuffles_iff)
  moreover have "announced (concat ?s) = length enc2 div 256"
    unfolding b1 [symmetric] w1 w2 by (simp add: announced_low)
  ultimately show ?thesis by (intro exI conjI)
qed



text \<open>
  C18. Exactly one answer, and the right one: unless the service throws (then the exception ends
  the task and nothing is sent), \<open>HandleRpcRequestSync\<close> writes one response, with the sequence
  id of the request. Its code is 6000 for an empty name; 0 if the handler succeeded, with the
  handler's result; and 3000 otherwise, also when the service exists and its handler fails or
  does not know the method. \<open>METHOD_NOT_FOUND\<close> and \<open>INTERNAL_ERROR\<close> are never sent.
\<close>

theorem one_answer_per_request:
  fixes q :: rpc_request
  shows "let h = ServiceManager_HandleRpcRequest services (service_name q) (method_name q) (payload q) [] in
     (service_name q \<noteq> [] \<and> method_name q \<noteq> [] \<and>
       (\<exists>e. h = Inl e \<and> HandleRpcRequestSync P services dis ws conn q = Fault e))
     \<or> (\<exists>resp. HandleRpcRequestSync P services dis ws conn q = Write_response (zlib P) (memory P) dis ws resp conn
         \<and> sequence_id resp = sequence_id q
         \<and> response_code resp \<in> {0, 3000, 6000}
         \<and> (response_code resp = 6000 \<longleftrightarrow> service_name q = [] \<or> method_name q = [])
         \<and> (response_code resp = 0 \<longleftrightarrow> service_name q \<noteq> [] \<and> method_name q \<noteq> [] \<and> h = Inr (True, result_data resp))
         \<and> (response_code resp \<noteq> 0 \<longrightarrow> result_data resp = []))"
proof (cases "service_name q = [] \<or> method_name q = []")
  case True
  then show ?thesis by (auto simp: HandleRpcRequestSync_def SendErrorResponse_def Let_def new_response_def)
next
  case False
  show ?thesis
  proof (cases "ServiceManager_HandleRpcRequest services (service_name q) (method_name q) (payload q) []")
    case (Inr x)
    then show ?thesis
      using False by (cases x; cases "fst x")
        (auto simp: HandleRpcRequestSync_def SendErrorResponse_def Let_def new_response_def)
  qed (use False in \<open>auto simp: HandleRpcRequestSync_def Let_def\<close>)
qed

theorem one_answer_per_request_witness:
  "\<exists>resp. HandleRpcRequestSync sample_platform Map.empty (\<lambda>_. 0) [] (new_connection 5) sample_request
       = Write_response stored_zstd 1000 (\<lambda>_. 0) [] resp (new_connection 5)
     \<and> sequence_id resp = 7 \<and> response_code resp = 3000 \<and> result_data resp = []"
  using one_answer_per_request [of Map.empty sample_request sample_platform "\<lambda>_. 0" "[]" "new_connection 5"]
  by (auto simp: ServiceManager_HandleRpcRequest_def sample_request_def sample_platform_def Let_def)

text \<open>A response is one \<open>Write\<close> of bytes that do not depend on the kernel, or no \<open>Write\<close> at all.\<close>

lemma Write_response_shape:
  "(\<exists>data. \<forall>ws. Write_response z mem dis ws resp c = Write ws data c)
   \<or> (\<forall>ws. (\<exists>x. Write_response z mem dis ws resp c = Fault x) \<or> Write_response z mem dis ws resp c = Done (False, [], c, ws))"
  by (auto simp: Write_response_def WriteFrame_def Let_def split: prod.split bool.split sum.split)

lemma HandleRpcRequestSync_response:
  "(\<exists>e. \<forall>dis ws c. HandleRpcRequestSync P services dis ws c q = Fault e)
   \<or> (\<exists>resp. \<forall>dis ws c. HandleRpcRequestSync P services dis ws c q = Write_response (zlib P) (memory P) dis ws resp c)"
proof (cases "service_name q = [] \<or> method_name q = []")
  case True
  then show ?thesis by (auto simp: HandleRpcRequestSync_def SendErrorResponse_def Let_def)
next
  case False
  let ?h = "ServiceManager_HandleRpcRequest services (service_name q) (method_name q) (payload q) []"
  consider (threw) e where "?h = Inl e" | (failed) r where "?h = Inr (False, r)" | (handled) r where "?h = Inr (True, r)"
    by (cases ?h) auto
  then show ?thesis
    by cases (use False in \<open>auto simp: HandleRpcRequestSync_def SendErrorResponse_def Let_def\<close>)
qed

lemma HandleRpcRequestSync_Write:
  assumes "HandleRpcRequestSync P services dis ws c q = Done (True, out, c', ws')"
  shows "\<exists>data. \<forall>ws. HandleRpcRequestSync P services dis ws c q = Write ws data c"
  using HandleRpcRequestSync_response [of P services q]
proof
  assume "\<exists>resp. \<forall>dis ws c. HandleRpcRequestSync P services dis ws c q = Write_response (zlib P) (memory P) dis ws resp c"
  then obtain resp where r: "\<And>ws. HandleRpcRequestSync P services dis ws c q = Write_response (zlib P) (memory P) dis ws resp c"
    by auto
  with assms have "Write_response (zlib P) (memory P) dis ws resp c = Done (True, out, c', ws')" by simp
  with Write_response_shape [of "zlib P" "memory P" dis resp c] r show ?thesis
    by (metis Pair_inject run.distinct(5) run.inject(2))
qed (use assms in auto)

text \<open>
  A client that disconnects before its answer is written takes the server down: whenever the
  answer can be written on a live socket, the same call on a socket whose peer is gone raises
  \<open>SIGPIPE\<close>, which the server neither ignores nor handles and no \<open>catch\<close> stops.
\<close>

theorem peer_gone_raises_sigpipe:
  assumes "HandleRpcRequestSync P services dis ws conn q = Done (True, out, conn', ws')"
  shows "HandleRpcRequestSync P services dis (Wr_pipe # ws2) conn q = Fault Sigpipe \<and> \<not> thrown Sigpipe"
proof -
  from HandleRpcRequestSync_Write [OF assms] obtain data where
    d: "\<And>ws. HandleRpcRequestSync P services dis ws conn q = Write ws data conn" by auto
  with assms have "cstate conn = CONNECTED" "data \<noteq> []"
    by (auto simp: Write_def split: if_splits)
  then show ?thesis using d by (simp add: Write_def Write_loop.simps)
qed

lemma sample_answered:
  "\<exists>out ws'. HandleRpcRequestSync sample_platform Map.empty (\<lambda>_. 0) [Wr (4 + MAX_FRAME_SIZE)] (new_connection 5) sample_request
     = Done (True, out, new_connection 5, ws')"
proof -
  let ?r = "new_response\<lparr>sequence_id := 7, response_code := 3000, error_message := str ''Service not found''\<rparr>"
  have fits: "response_fits 1000 ?r" "fits_wire stored_zstd 1000 (length (response_image ?r))"
    by (simp_all add: response_fits_def fits_wire_def length_response_image new_response_def guard_simps)
       (simp_all add: stored_zstd_def)
  have "HandleRpcRequestSync sample_platform Map.empty (\<lambda>_. 0) [Wr (4 + MAX_FRAME_SIZE)] (new_connection 5) sample_request
      = Write_response stored_zstd 1000 (\<lambda>_. 0) [Wr (4 + MAX_FRAME_SIZE)] ?r (new_connection 5)"
    by (simp add: HandleRpcRequestSync_def SendErrorResponse_def ServiceManager_HandleRpcRequest_def
        sample_request_def sample_platform_def Let_def)
  also have "\<dots> = WriteFrame stored_zstd 1000 (\<lambda>_. 0) [Wr (4 + MAX_FRAME_SIZE)] (response_image ?r) (new_connection 5)"
    by (simp add: Write_response_def RpcResponse_Serialize_eq [OF fits(1)])
  finally show ?thesis
    using WriteFrame_completes [OF response_frame_ok [OF stored_zstd_lossless fits], of "new_connection 5"
        "[Wr (4 + MAX_FRAME_SIZE)]" "\<lambda>_. 0"]
    by (auto simp: new_connection_def no_error_def)
qed

theorem peer_gone_raises_sigpipe_witness:
  "HandleRpcRequestSync sample_platform Map.empty (\<lambda>_. 0) [Wr_pipe] (new_connection 5) sample_request = Fault Sigpipe"
  using sample_answered peer_gone_raises_sigpipe by metis

text \<open>A \<open>Stop\<close> that comes before \<open>Loop\<close> has started is lost.\<close>

lemma Loop_forgets_Stop: "Loop P b waits (Stop s) = Loop P b waits s"
  by (simp add: Loop_def Stop_def)

end
