(* ===== verification/Server_System.thy ===== *)
theory Server_System
  imports Message_Cycle
begin

text \<open>
  The running server: the main thread, which handles events and at the end shuts the pool down
  (\<open>servers_main.cpp\<close>), and the worker threads, which run the submitted closures, on one state.
  Where \<open>Message_Cycle\<close> treats an event as one step and lets any submitted closure run at any
  time, here the threads interleave: the main thread cuts frame by frame, and waits when the
  queue of the pool is full; a closure runs when a worker has taken its task from the queue.
\<close>

section \<open>One round of the frame loop\<close>

text \<open>
  The body of the loop of \<open>HandleClientData\<close>, on the shared connection object. The flag tells
  whether the loop goes on; \<open>Blocked\<close>: \<open>enqueue\<close> waits for room in the queue.
\<close>

definition cut_frame :: "platform \<Rightarrow> (rpc_request \<Rightarrow> body) \<Rightarrow> int \<Rightarrow> conn_ref \<Rightarrow> server \<Rightarrow> (bool \<times> server) run" where
  "cut_frame P b f r s =
     (case ExtractFrame (zlib P) (memory P) (heap s r) [] of
        Inl e \<Rightarrow> Fault e
      | Inr (kIncomplete, _, c) \<Rightarrow> Done (False, release r (s\<lparr>heap := (heap s)(r := c)\<rparr>))
      | Inr (kError, _, c) \<Rightarrow> Done (False, release r (RemoveConnection f (s\<lparr>heap := (heap s)(r := c)\<rparr>)))
      | Inr (kComplete, frame, c) \<Rightarrow>
          let s = s\<lparr>heap := (heap s)(r := c)\<rparr> in
          (case RpcRequest_Deserialize frame new_request of
             Inl e \<Rightarrow> Fault e
           | Inr (False, _) \<Rightarrow> Done (False, release r (RemoveConnection f s))
           | Inr (True, request) \<Rightarrow>
               (case HandleRpcRequest P (b request) r request s of
                  Blocked \<Rightarrow> Blocked
                | Fault e \<Rightarrow> Fault e
                | Done s \<Rightarrow> Done (True, s))))"

section \<open>The state and its steps\<close>

text \<open>
  Where the main thread is: before the next event, in the frame loop for a descriptor and its
  connection, after \<open>Loop\<close>, inside \<open>shutdown\<close>, past it, or dead of an exception (then so is the
  process).
\<close>

datatype main_thread = Waiting_events | Cutting int conn_ref | Loop_left | Shutting_pool | Exited | Died fault

text \<open>
  \<open>executed\<close> is the history of the closures that have ended: the bytes their response put on the
  wire, or \<open>None\<close> when they threw. No step reads it.
\<close>

record rpc_system =
  srv :: server
  main_at :: main_thread
  executed :: "(nat \<times> conn_ref \<times> rpc_request \<times> bytes option) list"

text \<open>How a closure ends depends on the request only (\<open>closure_cases\<close> below).\<close>

definition body_of :: "platform \<Rightarrow> service_table \<Rightarrow> rpc_request \<Rightarrow> body" where
  "body_of P services q =
     (case HandleRpcRequestSync P services (\<lambda>_. 0) [] (new_connection (-1)) q of
        Fault _ \<Rightarrow> Throws | _ \<Rightarrow> Returns)"

definition end_closure :: "nat \<Rightarrow> task \<Rightarrow> pool \<Rightarrow> nat \<times> conn_ref \<times> rpc_request \<Rightarrow> connection \<Rightarrow> server \<Rightarrow> server" where
  "end_closure i t p j c s =
     end_job j (s\<lparr>heap := (heap s)(fst (snd j) := c), thread_pool := Some (finish_task i t p)\<rparr>)"

definition process_alive :: "rpc_system \<Rightarrow> bool" where
  "process_alive s \<longleftrightarrow> (\<forall>e. main_at s \<noteq> Died e)"

text \<open>What the threads do without anything new from outside.\<close>

inductive own_step :: "platform \<Rightarrow> service_table \<Rightarrow> rpc_system \<Rightarrow> rpc_system \<Rightarrow> bool" for P services s where
  o_cut: "main_at s = Cutting f r \<Longrightarrow> cut_frame P (body_of P services) f r (srv s) = Done (again, s') \<Longrightarrow>
     own_step P services s (s\<lparr>srv := s', main_at := if again then Cutting f r else Waiting_events\<rparr>)"
| o_die: "main_at s = Cutting f r \<Longrightarrow> cut_frame P (body_of P services) f r (srv s) = Fault e \<Longrightarrow>
     own_step P services s (s\<lparr>main_at := Died e\<rparr>)"
| o_take: "process_alive s \<Longrightarrow> thread_pool (srv s) = Some p \<Longrightarrow> i < length (workers p) \<Longrightarrow>
     workers p ! i = W_idle \<Longrightarrow> worker_locked late i p q \<Longrightarrow>
     own_step P services s (s\<lparr>srv := (srv s)\<lparr>thread_pool := Some q\<rparr>\<rparr>)"
| o_start: "process_alive s \<Longrightarrow> thread_pool (srv s) = Some p \<Longrightarrow> i < length (workers p) \<Longrightarrow>
     workers p ! i = W_picked t \<Longrightarrow>
     own_step P services s (s\<lparr>srv := (srv s)\<lparr>thread_pool := Some (start_task i t p)\<rparr>\<rparr>)"
| o_answer: "process_alive s \<Longrightarrow> thread_pool (srv s) = Some p \<Longrightarrow> i < length (workers p) \<Longrightarrow>
     workers p ! i = W_running t \<Longrightarrow> (task_id t, r, q) \<in> set (jobs (srv s)) \<Longrightarrow>
     HandleRpcRequestSync P services dis ws (heap (srv s) r) q = Done (ok, out, c, ws') \<Longrightarrow>
     own_step P services s (s\<lparr>srv := end_closure i t p (task_id t, r, q) c (srv s),
       executed := (task_id t, r, q, Some out) # executed s\<rparr>)"
| o_throw: "process_alive s \<Longrightarrow> thread_pool (srv s) = Some p \<Longrightarrow> i < length (workers p) \<Longrightarrow>
     workers p ! i = W_running t \<Longrightarrow> (task_id t, r, q) \<in> set (jobs (srv s)) \<Longrightarrow>
     HandleRpcRequestSync P services dis ws (heap (srv s) r) q = Fault e \<Longrightarrow> thrown e \<Longrightarrow>
     own_step P services s (s\<lparr>srv := end_closure i t p (task_id t, r, q) (heap (srv s) r) (srv s),
       executed := (task_id t, r, q, None) # executed s\<rparr>)"

text \<open>An event that brings data on a connection, so that the frame loop is entered.\<close>

definition brings_data :: "epoll_event \<Rightarrow> server \<Rightarrow> bool" where
  "brings_data ev s \<longleftrightarrow> \<not> has_error ev \<and> data_fd ev \<notin> listen_fds s \<and> has_input ev
     \<and> (\<exists>r c rs. GetConnection (conns s) (data_fd ev) = Some r \<and> Read (reads ev) (heap s r) = Done (True, c, rs))"

text \<open>\<open>SignalHandler\<close> of \<open>servers_main.cpp\<close>, with what \<open>g_message_cycle\<close> points to.\<close>

definition SignalHandler :: "server option \<Rightarrow> server option" where
  "SignalHandler g_message_cycle = (case g_message_cycle of None \<Rightarrow> None | Some cycle \<Rightarrow> Some (Stop cycle))"

text \<open>
  Events, the signal handler, the end of the loop (after \<open>Stop\<close>, or when \<open>epoll_wait\<close> fails) and
  the shutdown that follows it in \<open>main\<close>.
\<close>

inductive sys_step :: "platform \<Rightarrow> service_table \<Rightarrow> rpc_system \<Rightarrow> rpc_system \<Rightarrow> bool" for P services s where
  y_own: "own_step P services s t \<Longrightarrow> sys_step P services s t"
| y_event: "main_at s = Waiting_events \<Longrightarrow> kernel_ok ev (srv s) \<Longrightarrow> \<not> brings_data ev (srv s) \<Longrightarrow>
     HandleEpollEvent P (body_of P services) ev (srv s) = Done s' \<Longrightarrow> sys_step P services s (s\<lparr>srv := s'\<rparr>)"
| y_read: "main_at s = Waiting_events \<Longrightarrow> brings_data ev (srv s) \<Longrightarrow>
     GetConnection (conns (srv s)) (data_fd ev) = Some r \<Longrightarrow> Read (reads ev) (heap (srv s) r) = Done (True, c, rs) \<Longrightarrow>
     sys_step P services s (s\<lparr>srv := (srv s)\<lparr>heap := (heap (srv s))(r := c)\<rparr>, main_at := Cutting (data_fd ev) r\<rparr>)"
| y_signal: "process_alive s \<Longrightarrow> SignalHandler (Some (srv s)) = Some s' \<Longrightarrow> sys_step P services s (s\<lparr>srv := s'\<rparr>)"
| y_leave: "main_at s = Waiting_events \<Longrightarrow> sys_step P services s (s\<lparr>main_at := Loop_left\<rparr>)"
| y_no_pool: "main_at s = Loop_left \<Longrightarrow> thread_pool (srv s) = None \<Longrightarrow> sys_step P services s (s\<lparr>main_at := Exited\<rparr>)"
| y_refused: "main_at s = Loop_left \<Longrightarrow> thread_pool (srv s) = Some p \<Longrightarrow> shutdown_begin p = (Some r, q) \<Longrightarrow>
     sys_step P services s (s\<lparr>srv := (srv s)\<lparr>thread_pool := if r then None else Some q\<rparr>, main_at := Exited\<rparr>)"
| y_shutdown: "main_at s = Loop_left \<Longrightarrow> thread_pool (srv s) = Some p \<Longrightarrow> shutdown_begin p = (None, q) \<Longrightarrow>
     sys_step P services s (s\<lparr>srv := (srv s)\<lparr>thread_pool := Some q\<rparr>, main_at := Shutting_pool\<rparr>)"
| y_drained: "main_at s = Shutting_pool \<Longrightarrow> thread_pool (srv s) = Some p \<Longrightarrow> phase p = Draining \<Longrightarrow>
     tasks p = [] \<Longrightarrow> active_threads p = 0 \<Longrightarrow>
     sys_step P services s (s\<lparr>srv := (srv s)\<lparr>thread_pool := Some (shutdown_stop p)\<rparr>\<rparr>)"
| y_timeout: "main_at s = Shutting_pool \<Longrightarrow> thread_pool (srv s) = Some p \<Longrightarrow> phase p = Draining \<Longrightarrow>
     sys_step P services s (s\<lparr>srv := (srv s)\<lparr>thread_pool := Some (snd (shutdown_timeout p))\<rparr>, main_at := Exited\<rparr>)"
| y_joined: "main_at s = Shutting_pool \<Longrightarrow> thread_pool (srv s) = Some p \<Longrightarrow> shutdown_returns_true p \<Longrightarrow>
     sys_step P services s (s\<lparr>srv := (srv s)\<lparr>thread_pool := None\<rparr>, main_at := Exited\<rparr>)"

definition sys_init :: "rpc_system \<Rightarrow> bool" where
  "sys_init s \<longleftrightarrow> cycle_init (srv s) \<and> next_job (srv s) = 0 \<and> main_at s = Waiting_events \<and> executed s = []
     \<and> (\<forall>p. thread_pool (srv s) = Some p \<longrightarrow> pool_init p)"

section \<open>How a closure ends\<close>

text \<open>
  Independently of the connection, the random bytes and the kernel, a closure throws, or writes
  one byte string, or has nothing to write.
\<close>

lemma Encrypt_cases: "Encrypt dis data [] = Inr (data \<noteq> [], snd (projr (Encrypt dis data [])))"
  by (auto simp: Encrypt_def ShiftEncrypt_def GenerateRandomBytes_def master_key_def KEY_LENGTH_def Let_def
      split: sum.split)

lemma Write_response_cases:
  "(\<exists>e. thrown e \<and> (\<forall>dis ws c. Write_response z mem dis ws resp c = Fault e))
   \<or> (\<forall>dis. \<exists>data. \<forall>ws c. Write_response z mem dis ws resp c = Write ws data c)
   \<or> (\<forall>dis ws c. Write_response z mem dis ws resp c = Done (False, [], c, ws))"
proof -
  obtain ok serialized where ser: "RpcResponse_Serialize mem resp [] = (ok, serialized)" by fastforce
  show ?thesis
  proof (cases "CompressString z mem DEFAULT serialized []")
    case (Inl e)
    then have "thrown e" by (auto simp: CompressString_def resize_or_throw_def split: if_splits sum.splits prod.splits)
    with Inl ser show ?thesis by (cases ok) (auto simp: Write_response_def WriteFrame_def)
  next
    case (Inr x)
    obtain ok2 packed where x: "x = (ok2, packed)" by fastforce
    show ?thesis
    proof (cases "ok \<and> ok2 \<and> packed \<noteq> []")
      case True
      have "\<exists>data. \<forall>ws c. Write_response z mem dis ws resp c = Write ws data c" for dis
        using True ser Inr x Encrypt_cases [of dis packed]
        by (cases "Encrypt dis packed []") (auto simp: Write_response_def WriteFrame_def Let_def)
      then show ?thesis by blast
    next
      case False
      then have "Write_response z mem dis ws resp c = Done (False, [], c, ws)" for dis ws c
        using ser Inr x by (cases ok; cases ok2) (auto simp: Write_response_def WriteFrame_def Encrypt_def)
      then show ?thesis by blast
    qed
  qed
qed

text \<open>Services whose handlers may throw, but not run into undefined behaviour.\<close>

definition services_throw :: "service_table \<Rightarrow> bool" where
  "services_throw services \<longleftrightarrow>
     (\<forall>s\<in>ran services. \<forall>m a old e. HandleRequest s m a old = Inl e \<longrightarrow> thrown e)"

lemma closure_cases:
  obtains (throws) e where "\<And>dis ws c. HandleRpcRequestSync P services dis ws c q = Fault e"
      "services_throw services \<Longrightarrow> thrown e"
  | (writes) "\<And>dis. \<exists>data. \<forall>ws c. HandleRpcRequestSync P services dis ws c q = Write ws data c"
  | (silent) "\<And>dis ws c. HandleRpcRequestSync P services dis ws c q = Done (False, [], c, ws)"
proof -
  let ?h = "ServiceManager_HandleRpcRequest services (service_name q) (method_name q) (payload q) []"
  consider (bad) "service_name q = [] \<or> method_name q = []"
    | (threw) e where "service_name q \<noteq> []" "method_name q \<noteq> []" "?h = Inl e"
    | (failed) r where "service_name q \<noteq> []" "method_name q \<noteq> []" "?h = Inr (False, r)"
    | (handled) r where "service_name q \<noteq> []" "method_name q \<noteq> []" "?h = Inr (True, r)"
    by (cases ?h) auto
  then have "(\<exists>e. (services_throw services \<longrightarrow> thrown e) \<and> (\<forall>dis ws c. HandleRpcRequestSync P services dis ws c q = Fault e))
    \<or> (\<exists>resp. \<forall>dis ws c. HandleRpcRequestSync P services dis ws c q = Write_response (zlib P) (memory P) dis ws resp c)"
  proof cases
    case (threw e)
    then obtain s where "services (service_name q) = Some s" "HandleRequest s (method_name q) (payload q) [] = Inl e"
      by (auto simp: ServiceManager_HandleRpcRequest_def split: option.splits sum.splits if_splits)
    then have "services_throw services \<longrightarrow> thrown e" unfolding services_throw_def by (meson ranI)
    with threw show ?thesis by (auto simp: HandleRpcRequestSync_def)
  qed (auto simp: HandleRpcRequestSync_def SendErrorResponse_def Let_def)
  then show thesis
  proof
    assume "\<exists>resp. \<forall>dis ws c. HandleRpcRequestSync P services dis ws c q = Write_response (zlib P) (memory P) dis ws resp c"
    then obtain resp where r: "\<And>dis ws c. HandleRpcRequestSync P services dis ws c q
        = Write_response (zlib P) (memory P) dis ws resp c" by blast
    from Write_response_cases [of "zlib P" "memory P" resp] show thesis
      using throws writes silent unfolding r by metis
  qed (use throws in blast)
qed

lemma Write_may_complete: "\<exists>ok out c' ws'. Write [Wr (length data)] data c = Done (ok, out, c', ws')"
  by (cases "cstate c \<noteq> CONNECTED \<or> data = []") (auto simp: Write_def Write_loop.simps)

lemma closure_may_end:
  assumes "services_throw services"
  shows "(\<exists>dis ws ok out c' ws'. HandleRpcRequestSync P services dis ws c q = Done (ok, out, c', ws'))
     \<or> (\<exists>e. thrown e \<and> HandleRpcRequestSync P services (\<lambda>_. 0) [] c q = Fault e)"
proof (cases rule: closure_cases [of P services q])
  case writes
  then obtain data where "\<forall>ws c. HandleRpcRequestSync P services (\<lambda>_. 0) ws c q = Write ws data c" by blast
  with Write_may_complete [of data c] show ?thesis by metis
qed (use assms in auto)

lemma body_of_Returns:
  "HandleRpcRequestSync P services dis ws c q = Done x \<Longrightarrow> body_of P services q = Returns"
  and body_of_Throws:
  "HandleRpcRequestSync P services dis ws c q = Fault e \<Longrightarrow> thrown e \<Longrightarrow> body_of P services q = Throws"
proof -
  have probe: "Write [] data (new_connection (-1)) = Done (False, [], new_connection (-1), [])" for data
    by (simp add: Write_def new_connection_def)
  have loop: "Write_loop ws data n c = Fault e \<Longrightarrow> e = Sigpipe" for ws data n c e
    by (induction ws arbitrary: n) (subst (asm) Write_loop.simps, auto split: if_splits write_result.splits)+
  have "(\<forall>x. HandleRpcRequestSync P services dis ws c q = Done x \<longrightarrow> body_of P services q = Returns)
     \<and> (\<forall>e. HandleRpcRequestSync P services dis ws c q = Fault e \<longrightarrow> thrown e \<longrightarrow> body_of P services q = Throws)"
  proof (cases rule: closure_cases [of P services q])
    case writes
    from writes [of dis] obtain data where d: "HandleRpcRequestSync P services dis ws c q = Write ws data c" by blast
    from writes [of "\<lambda>_. 0"] obtain data' where
      "HandleRpcRequestSync P services (\<lambda>_. 0) [] (new_connection (-1)) q = Write [] data' (new_connection (-1))" by blast
    then have "body_of P services q = Returns" by (simp add: body_of_def probe)
    moreover have "Write ws data c = Fault e \<Longrightarrow> \<not> thrown e" for e
      using loop [of ws data 0 c e] by (auto simp: Write_def split: if_splits)
    ultimately show ?thesis using d by auto
  qed (simp_all add: body_of_def)
  then show "HandleRpcRequestSync P services dis ws c q = Done x \<Longrightarrow> body_of P services q = Returns"
    and "HandleRpcRequestSync P services dis ws c q = Fault e \<Longrightarrow> thrown e \<Longrightarrow> body_of P services q = Throws"
    by blast+
qed

section \<open>The pool and the submitted closures\<close>

text \<open>The tasks the pool still has to execute: queued, or in the hands of a worker.\<close>

definition unfinished :: "pool \<Rightarrow> task multiset" where
  "unfinished p = mset (tasks p) + held (workers p)"

definition pool_jobs :: "pool_instance \<Rightarrow> nat multiset" where
  "pool_jobs inst = (case inst of None \<Rightarrow> {#} | Some p \<Rightarrow> image_mset task_id (unfinished p))"

definition pool_ok :: "pool_instance \<Rightarrow> bool" where
  "pool_ok inst \<longleftrightarrow> (\<forall>p. inst = Some p \<longrightarrow> pool_inv p)"

text \<open>
  Every unfinished task belongs to a submitted closure, and every closure ever submitted is
  either submitted still or executed, once.
\<close>

definition coupled :: "server \<Rightarrow> (nat \<times> conn_ref \<times> rpc_request \<times> bytes option) list \<Rightarrow> bool" where
  "coupled s ex \<longleftrightarrow> pool_ok (thread_pool s) \<and> pool_jobs (thread_pool s) = mset (map fst (jobs s))
     \<and> mset (map fst (jobs s)) + mset (map fst ex) = mset [0..<next_job s]"

text \<open>What of the server these conditions see.\<close>

definition pool_part :: "server \<Rightarrow> pool_instance \<times> (nat \<times> conn_ref \<times> rpc_request) list \<times> nat" where
  "pool_part s = (thread_pool s, jobs s, next_job s)"

lemma coupled_part: "pool_part s = pool_part t \<Longrightarrow> coupled s ex = coupled t ex"
  by (simp add: pool_part_def coupled_def)

lemma pool_part_simps [simp]:
  "pool_part (release r s) = pool_part s" "pool_part (RemoveConnection f s) = pool_part s"
  "pool_part (s\<lparr>heap := h\<rparr>) = pool_part s" "pool_part (Stop s) = pool_part s"
  by (simp_all add: pool_part_def release_def RemoveConnection_def Stop_def)

lemma HandleNewConnection_part [simp]: "pool_part (HandleNewConnection a s) = pool_part s"
  by (auto simp: HandleNewConnection_def Let_def split: accept_result.split)
     (simp_all add: pool_part_def)

lemma quiet_event_part:
  assumes "HandleEpollEvent P b ev s = Done s'" and "\<not> brings_data ev s"
  shows "pool_part s' = pool_part s"
proof (cases "\<not> has_error ev \<and> data_fd ev \<notin> listen_fds s \<and> has_input ev")
  case True
  with assms(1) have h: "HandleClientData P b (reads ev) (data_fd ev) s = Done s'"
    by (simp add: HandleEpollEvent_def)
  with True assms(2) show ?thesis
    by (auto simp: brings_data_def HandleClientData_def split: option.splits run.splits bool.splits)
next
  case False
  with assms(1) show ?thesis by (auto simp: HandleEpollEvent_def Let_def split: option.splits if_splits)
qed

lemma enqueue_fields:
  assumes "enqueue spawned t p = (Accepted, q)"
  shows "unfinished q = add_mset t (unfinished p)" and "\<not> stop p"
    and "pstate q = pstate p" and "config q = config p" and "phase q = phase p"
    and "pool_work q \<le> pool_work p + 4"
  using assms
  by (auto simp: enqueue_def adjust_thread_count_def unfinished_def count_append pool_work_def weight_def Let_def
      split: if_splits)

lemma enqueue_Rejected: "enqueue spawned t p = (Rejected, q) \<Longrightarrow> q = p \<and> stop p"
  by (auto simp: enqueue_def Let_def split: if_splits)

lemma ThreadPool_inv: "pool_inv (ThreadPool_threads n)"
  by (intro pool_system.inv_init) (simp add: pool_init_def ThreadPool_threads_def exI [of _ "\<lparr>core_threads = n, max_threads = n, max_queue_size = 0\<rparr>"])

text \<open>Submitting a request: the pool as found, or a new one, gets the task.\<close>

definition pool_for :: "platform \<Rightarrow> server \<Rightarrow> pool" where
  "pool_for P s = (case thread_pool s of None \<Rightarrow> ThreadPool_threads (hardware_concurrency P) | Some p \<Rightarrow> p)"

lemma HandleRpcRequest_pool:
  "HandleRpcRequest P b r q s =
     (case enqueue (can_spawn P) \<lparr>task_id = next_job s, priority = NORMAL, task_body = b\<rparr> (pool_for P s) of
        (Waits, _) \<Rightarrow> Blocked
      | (Rejected, p) \<Rightarrow> Done (s\<lparr>thread_pool := Some p\<rparr>)
      | (Accepted, p) \<Rightarrow>
          Done (s\<lparr>thread_pool := Some p, jobs := jobs s @ [(next_job s, r, q)], next_job := next_job s + 1\<rparr>))"
  by (cases "thread_pool s")
     (simp_all add: HandleRpcRequest_def pool_for_def exists_def init_threads_def Singleton_enqueue_def getInstance_def
       apsnd_def map_prod_def case_prod_unfold Let_def split: enqueue_result.split)

lemma HandleRpcRequest_coupled:
  assumes "HandleRpcRequest P b r q s = Done s'" and "coupled s ex"
  shows "coupled s' ex"
proof -
  let ?p = "pool_for P s"
  obtain res p where e: "enqueue (can_spawn P) \<lparr>task_id = next_job s, priority = NORMAL, task_body = b\<rparr> ?p = (res, p)"
    by fastforce
  have p0: "pool_inv ?p" "image_mset task_id (unfinished ?p) = mset (map fst (jobs s))"
    using assms(2) ThreadPool_inv
    by (auto simp: pool_for_def coupled_def pool_ok_def pool_jobs_def unfinished_def ThreadPool_threads_def
        ThreadPool_config_def count_replicate split: option.splits)
  have "pool_inv p" using enqueue_inv [OF p0(1)] e by (metis snd_conv)
  show ?thesis
  proof (cases res)
    case Rejected
    with e have "p = ?p" using enqueue_Rejected by blast
    with Rejected e assms p0 show ?thesis
      by (auto simp: HandleRpcRequest_pool coupled_def pool_ok_def pool_jobs_def)
  next
    case Accepted
    with e enqueue_fields(1) have "unfinished p = add_mset \<lparr>task_id = next_job s, priority = NORMAL, task_body = b\<rparr> (unfinished ?p)"
      by blast
    with Accepted e assms p0 \<open>pool_inv p\<close> show ?thesis
      by (auto simp: HandleRpcRequest_pool coupled_def pool_ok_def pool_jobs_def atLeast0_lessThan_Suc)
  qed (use e assms in \<open>simp add: HandleRpcRequest_pool\<close>)
qed

lemma HandleRpcRequest_keeps:
  "HandleRpcRequest P b r q s = Done s' \<Longrightarrow> conns s' = conns s \<and> heap s' = heap s"
  by (auto dest: HandleRpcRequest_Done)

lemma HandleRpcRequest_inv:
  assumes "HandleRpcRequest P b r q s = Done s'" and "cycle_inv s" and "live s r"
  shows "cycle_inv s'"
proof -
  from HandleRpcRequest_Done [OF assms(1)] obtain tp js n where
    s': "s' = s\<lparr>thread_pool := tp, jobs := jobs s @ js, next_job := n\<rparr>" and js: "(fst \<circ> snd) ` set js \<subseteq> {r}"
    by blast
  have "(fst \<circ> snd) ` set (jobs s) \<subseteq> Collect (live s)" unfolding live_def by blast
  with js assms(3) have "(fst \<circ> snd) ` set (jobs s @ js) \<subseteq> Collect (live s)" by (auto simp: image_Un)
  from jobs_inv(1) [OF assms(2) this] show ?thesis unfolding s' .
qed

text \<open>One round of the loop: what it may do, and that it keeps the invariants.\<close>

lemma cut_frame_cases:
  assumes "cut_frame P b f r s = Done (again, s')"
  obtains (ended) st d c where "\<not> again" "ExtractFrame (zlib P) (memory P) (heap s r) [] = Inr (st, d, c)"
      "s' = release r (s\<lparr>heap := (heap s)(r := c)\<rparr>) \<or> s' = release r (RemoveConnection f (s\<lparr>heap := (heap s)(r := c)\<rparr>))"
  | (submitted) d c q where "again" "ExtractFrame (zlib P) (memory P) (heap s r) [] = Inr (kComplete, d, c)"
      "HandleRpcRequest P (b q) r q (s\<lparr>heap := (heap s)(r := c)\<rparr>) = Done s'"
  using assms
  by (auto simp: cut_frame_def Let_def split: sum.splits prod.splits frame_status.splits bool.splits run.splits)

lemma cut_frame_inv:
  assumes "cut_frame P b f r s = Done (again, s')" and "cycle_inv s" and "conns s f = Some r"
  shows "cycle_inv s'" and "again \<Longrightarrow> conns s' f = Some r"
proof -
  note live = live_conns [OF assms(3)]
  have h: "cycle_inv (s\<lparr>heap := (heap s)(r := c)\<rparr>) \<and> sole_owner (s\<lparr>heap := (heap s)(r := c)\<rparr>) r"
    if "ExtractFrame (zlib P) (memory P) (heap s r) [] = Inr (st, d, c)" for st d c
  proof -
    have fd: "fd c = fd (heap s r)" using ExtractFrame_buffer(2) [OF that] by blast
    show ?thesis
      by (rule conjI [OF heap_inv [OF assms(2) fd] iffD2 [OF heap_sole [OF fd] live_sole [OF assms(2) live]]])
  qed
  have "cycle_inv s' \<and> (again \<longrightarrow> conns s' f = Some r)"
    using assms(1)
  proof (cases rule: cut_frame_cases)
    case (ended st d c)
    note i = h [OF ended(2), THEN conjunct1] h [OF ended(2), THEN conjunct2]
    from ended(3) have "cycle_inv s'"
    proof
      assume "s' = release r (s\<lparr>heap := (heap s)(r := c)\<rparr>)"
      then show ?thesis using release_inv [OF i] by simp
    next
      assume "s' = release r (RemoveConnection f (s\<lparr>heap := (heap s)(r := c)\<rparr>))"
      then show ?thesis using release_inv [OF RemoveConnection_inv [OF i(1)] RemoveConnection_sole [OF i(2)]] by simp
    qed
    with ended(1) show ?thesis by simp
  next
    case (submitted d c q)
    have "live (s\<lparr>heap := (heap s)(r := c)\<rparr>) r" using live by (simp add: live_def)
    with h [OF submitted(2)] HandleRpcRequest_inv [OF submitted(3)] HandleRpcRequest_keeps [OF submitted(3)] assms(3)
    show ?thesis by simp
  qed
  then show "cycle_inv s'" and "again \<Longrightarrow> conns s' f = Some r" by blast+
qed

lemma cut_frame_coupled:
  assumes "cut_frame P b f r s = Done (again, s')" and "coupled s ex"
  shows "coupled s' ex"
  using assms(1)
proof (cases rule: cut_frame_cases)
  case (ended st d c)
  then have "pool_part s' = pool_part s" by auto
  from coupled_part [OF this] assms(2) show ?thesis by simp
next
  case (submitted d c q)
  have "pool_part (s\<lparr>heap := (heap s)(r := c)\<rparr>) = pool_part s" by simp
  from coupled_part [OF this] assms(2) have "coupled (s\<lparr>heap := (heap s)(r := c)\<rparr>) ex" by simp
  with submitted(3) show ?thesis by (rule HandleRpcRequest_coupled)
qed

section \<open>Executing a closure\<close>

lemma held_running:
  "i < length ws \<Longrightarrow> ws ! i = W_running t \<Longrightarrow> held ws = add_mset t (held (ws[i := W_idle]))"
  using worker_balance(1) [of i ws W_idle] by simp

lemma unfinished_finish:
  assumes "i < length (workers p)" and "workers p ! i = W_running t"
  shows "unfinished p = add_mset t (unfinished (finish_task i t p))"
  using held_running [OF assms] by (simp add: unfinished_def finish_task_def execute_def Let_def)

lemma unfinished_start:
  assumes "i < length (workers p)" and "workers p ! i = W_picked t"
  shows "unfinished (start_task i t p) = unfinished p"
  using worker_balance(1) [OF assms(1), of "W_running t"] assms(2) by (simp add: unfinished_def start_task_def)

lemma unfinished_locked:
  assumes "worker_locked late i p q" and "i < length (workers p)" and "workers p ! i = W_idle"
  shows "unfinished q = unfinished p"
  using assms(1)
proof (cases rule: worker_locked_cases)
  case gone
  with worker_balance(1) [OF assms(2), of W_exited] assms(3) show ?thesis by (simp add: unfinished_def)
next
  case (took t)
  then have "t \<in> set (tasks p)" by (simp add: is_top_def)
  with took worker_balance(1) [OF assms(2), of "W_picked t"] assms(3) show ?thesis
    by (simp add: unfinished_def)
qed

lemma end_closure_part:
  "pool_part (end_closure i t p j c s) = (Some (finish_task i t p), remove1 j (jobs s), next_job s)"
  unfolding end_closure_def end_job_def pool_part_simps by (simp add: pool_part_def)

lemma end_closure_coupled:
  assumes "coupled s ex" and "thread_pool s = Some p" and "i < length (workers p)" and "workers p ! i = W_running t"
    and "(task_id t, r, q) \<in> set (jobs s)"
  shows "coupled (end_closure i t p (task_id t, r, q) c s) ((task_id t, r, q, out) # ex)"
proof -
  let ?s = "end_closure i t p (task_id t, r, q) c s"
  have part: "thread_pool ?s = Some (finish_task i t p)" "jobs ?s = remove1 (task_id t, r, q) (jobs s)"
    "next_job ?s = next_job s"
    using end_closure_part [of i t p "(task_id t, r, q)" c s] by (simp_all add: pool_part_def)
  have ids: "mset (map fst (jobs s)) = add_mset (task_id t) (mset (map fst (jobs ?s)))"
  proof -
    have "mset (jobs s) = add_mset (task_id t, r, q) (mset (jobs ?s))" using assms(5) unfolding part by simp
    then have "image_mset fst (mset (jobs s)) = image_mset fst (add_mset (task_id t, r, q) (mset (jobs ?s)))" by (rule arg_cong)
    then show ?thesis by simp
  qed
  have un: "image_mset task_id (unfinished p) = add_mset (task_id t) (image_mset task_id (unfinished (finish_task i t p)))"
    using unfinished_finish [OF assms(3,4)] by simp
  have "pool_inv (finish_task i t p)" using assms by (auto simp: coupled_def pool_ok_def intro: finish_inv)
  with assms(1,2) ids un show ?thesis
    unfolding coupled_def part pool_ok_def pool_jobs_def by simp
qed

lemma end_closure_inv:
  assumes "cycle_inv s" and "(n, r, q) \<in> set (jobs s)" and "fd c = fd (heap s r)"
  shows "cycle_inv (end_closure i t p (n, r, q) c s)" and "conns (end_closure i t p (n, r, q) c s) = conns s"
proof -
  let ?s = "s\<lparr>heap := (heap s)(r := c), thread_pool := Some (finish_task i t p)\<rparr>"
  have "cycle_inv (s\<lparr>heap := (heap s)(r := c)\<rparr>)" using heap_inv assms by blast
  from jobs_inv(1) [OF this, where js = "jobs s" and n = "next_job s" and tp = "Some (finish_task i t p)"]
  have "cycle_inv ?s" unfolding live_def by fastforce
  then show "cycle_inv (end_closure i t p (n, r, q) c s)"
    unfolding end_closure_def using assms(2) by (intro end_job_inv) simp_all
  show "conns (end_closure i t p (n, r, q) c s) = conns s"
    by (simp add: end_closure_def end_job_def release_def)
qed

section \<open>The invariant of the system\<close>

definition answer_ok :: "platform \<Rightarrow> service_table \<Rightarrow> nat \<times> conn_ref \<times> rpc_request \<times> bytes option \<Rightarrow> bool" where
  "answer_ok P services x \<longleftrightarrow>
     (case x of
        (n, r, q, None) \<Rightarrow> body_of P services q = Throws
      | (n, r, q, Some out) \<Rightarrow> \<exists>dis ws c ok c' ws'. HandleRpcRequestSync P services dis ws c q = Done (ok, out, c', ws'))"

fun looping :: "main_thread \<Rightarrow> bool" where
  "looping Waiting_events = True"
| "looping (Cutting f r) = True"
| "looping Loop_left = True"
| "looping _ = False"

definition thread_inv :: "main_thread \<Rightarrow> server \<Rightarrow> bool" where
  "thread_inv m s \<longleftrightarrow> (\<forall>f r. m = Cutting f r \<longrightarrow> conns s f = Some r)
     \<and> (\<forall>p. thread_pool s = Some p \<longrightarrow> looping m \<longrightarrow> pstate p = RUNNING)"

definition sys_inv :: "platform \<Rightarrow> service_table \<Rightarrow> rpc_system \<Rightarrow> bool" where
  "sys_inv P services s \<longleftrightarrow> cycle_inv (srv s) \<and> coupled (srv s) (executed s) \<and> thread_inv (main_at s) (srv s)
     \<and> (\<forall>x\<in>set (executed s). answer_ok P services x)"

lemma sys_invI:
  assumes "cycle_inv (srv s)" and "coupled (srv s) (executed s)" and "thread_inv (main_at s) (srv s)"
    and "\<And>x. x \<in> set (executed s) \<Longrightarrow> answer_ok P services x"
  shows "sys_inv P services s"
  using assms by (simp add: sys_inv_def)

lemma sys_invD:
  assumes "sys_inv P services s"
  shows "cycle_inv (srv s)" and "coupled (srv s) (executed s)" and "thread_inv (main_at s) (srv s)"
    and "x \<in> set (executed s) \<Longrightarrow> answer_ok P services x"
  using assms by (simp_all add: sys_inv_def)

text \<open>Replacing the pool by one with the same unfinished tasks.\<close>

lemma pool_update_inv:
  assumes "sys_inv P services s" and "thread_pool (srv s) = Some p" and "pool_inv q" and "unfinished q = unfinished p"
    and "looping m \<Longrightarrow> pstate q = RUNNING" and "m = main_at s \<or> \<not> looping m"
  shows "sys_inv P services (s\<lparr>srv := (srv s)\<lparr>thread_pool := Some q\<rparr>, main_at := m\<rparr>)"
proof (rule sys_invI)
  note i = sys_invD [OF assms(1)]
  have "(fst \<circ> snd) ` set (jobs (srv s)) \<subseteq> Collect (live (srv s))" unfolding live_def by blast
  from jobs_inv(1) [OF i(1) this, where tp = "Some q" and n = "next_job (srv s)"]
  show "cycle_inv (srv (s\<lparr>srv := (srv s)\<lparr>thread_pool := Some q\<rparr>, main_at := m\<rparr>))" by simp
  show "coupled (srv (s\<lparr>srv := (srv s)\<lparr>thread_pool := Some q\<rparr>, main_at := m\<rparr>))
      (executed (s\<lparr>srv := (srv s)\<lparr>thread_pool := Some q\<rparr>, main_at := m\<rparr>))"
    using i(2) assms(2-4) by (simp add: coupled_def pool_ok_def pool_jobs_def)
  show "thread_inv (main_at (s\<lparr>srv := (srv s)\<lparr>thread_pool := Some q\<rparr>, main_at := m\<rparr>))
      (srv (s\<lparr>srv := (srv s)\<lparr>thread_pool := Some q\<rparr>, main_at := m\<rparr>))"
    using i(3) assms(5,6) by (auto simp: thread_inv_def)
qed (use sys_invD(4) [OF assms(1)] in simp)

lemma pool_facts:
  assumes "sys_inv P services s" and "thread_pool (srv s) = Some p"
  shows "pool_inv p" and "looping (main_at s) \<Longrightarrow> pstate p = RUNNING"
  using sys_invD [OF assms(1)] assms(2) by (auto simp: coupled_def pool_ok_def thread_inv_def)

lemma start_fields: "pstate (start_task i t p) = pstate p" "config (start_task i t p) = config p"
  by (simp_all add: start_task_def)

lemma finish_fields: "pstate (finish_task i t p) = pstate p" "config (finish_task i t p) = config p"
  by (simp_all add: finish_task_def execute_def Let_def)

lemma end_closure_sys:
  assumes "sys_inv P services s" and "thread_pool (srv s) = Some p" and "i < length (workers p)"
    and "workers p ! i = W_running t" and "(task_id t, r, q) \<in> set (jobs (srv s))" and "fd c = fd (heap (srv s) r)"
    and "answer_ok P services (task_id t, r, q, out)"
  shows "sys_inv P services (s\<lparr>srv := end_closure i t p (task_id t, r, q) c (srv s),
           executed := (task_id t, r, q, out) # executed s\<rparr>)"
proof (rule sys_invI)
  note i = sys_invD [OF assms(1)]
  let ?s = "end_closure i t p (task_id t, r, q) c (srv s)"
  let ?t = "s\<lparr>srv := ?s, executed := (task_id t, r, q, out) # executed s\<rparr>"
  show "cycle_inv (srv ?t)" using end_closure_inv(1) [OF i(1) assms(5,6)] by simp
  show "coupled (srv ?t) (executed ?t)" using end_closure_coupled [OF i(2) assms(2-5)] by simp
  have "thread_pool ?s = Some (finish_task i t p)"
    using end_closure_part [of i t p "(task_id t, r, q)" c "srv s"] by (simp add: pool_part_def)
  with i(3) assms(2) show "thread_inv (main_at ?t) (srv ?t)"
    using end_closure_inv(2) [OF i(1) assms(5,6)] by (simp add: thread_inv_def finish_fields)
  show "x \<in> set (executed ?t) \<Longrightarrow> answer_ok P services x" for x
    using i(4) [of x] assms(7) by auto
qed

lemma HandleRpcRequest_running:
  assumes "HandleRpcRequest P b r q s = Done s'" and "\<And>p. thread_pool s = Some p \<Longrightarrow> pstate p = RUNNING"
    and "thread_pool s' = Some p"
  shows "pstate p = RUNNING"
proof -
  have "pstate (pool_for P s) = RUNNING"
    using assms(2) by (auto simp: pool_for_def ThreadPool_threads_def ThreadPool_config_def split: option.split)
  with assms(1,3) show ?thesis
    by (auto simp: HandleRpcRequest_pool split: prod.splits enqueue_result.splits
        dest: enqueue_fields(3) enqueue_Rejected)
qed

lemma cut_frame_running:
  assumes "cut_frame P b f r s = Done (again, s')" and "\<And>p. thread_pool s = Some p \<Longrightarrow> pstate p = RUNNING"
    and "thread_pool s' = Some p"
  shows "pstate p = RUNNING"
  using assms(1)
proof (cases rule: cut_frame_cases)
  case (ended st d c)
  then have "pool_part s' = pool_part s" by auto
  with assms(2,3) show ?thesis by (simp add: pool_part_def)
next
  case (submitted d c q)
  from HandleRpcRequest_running [OF this(3)] assms(2,3) show ?thesis by simp
qed

lemma own_step_inv:
  assumes "own_step P services s t" and "sys_inv P services s"
  shows "sys_inv P services t"
  using assms(1)
proof cases
  case (o_cut f r again s')
  note i = sys_invD [OF assms(2)]
  have k: "conns (srv s) f = Some r" using i(3) o_cut(2) by (simp add: thread_inv_def)
  have "thread_pool (srv s) = Some p \<Longrightarrow> pstate p = RUNNING" for p
    using pool_facts(2) [OF assms(2)] o_cut(2) by simp
  note run = cut_frame_running [OF o_cut(3) this]
  show ?thesis
  proof (rule sys_invI)
    show "cycle_inv (srv t)" using cut_frame_inv(1) [OF o_cut(3) i(1) k] o_cut(1) by simp
    show "coupled (srv t) (executed t)" using cut_frame_coupled [OF o_cut(3) i(2)] o_cut(1) by simp
    show "thread_inv (main_at t) (srv t)"
      using cut_frame_inv(2) [OF o_cut(3) i(1) k] o_cut(1) run by (auto simp: thread_inv_def)
  qed (use i(4) o_cut(1) in simp)
next
  case (o_die f r e)
  with sys_invD [OF assms(2)] show ?thesis by (auto simp: sys_inv_def thread_inv_def)
next
  case (o_take p i late q)
  have "pool_inv q" using worker_locked_inv [OF o_take(6)] pool_facts(1) [OF assms(2)] o_take by blast
  with o_take pool_update_inv [OF assms(2) o_take(3), of q "main_at s"] pool_facts(2) [OF assms(2) o_take(3)]
  show ?thesis using unfinished_locked [OF o_take(6)] worker_locked_fields [OF o_take(6)] by simp
next
  case (o_start p i t')
  with pool_update_inv [OF assms(2) o_start(3), of "start_task i t' p" "main_at s"] pool_facts [OF assms(2) o_start(3)]
  show ?thesis by (simp add: unfinished_start start_inv start_fields)
next
  case (o_answer p i t' r q dis ws ok out c ws')
  have "fd c = fd (heap (srv s) r)" using HandleRpcRequestSync_fd [OF o_answer(7)] .
  moreover have "answer_ok P services (task_id t', r, q, Some out)" using o_answer(7) by (simp add: answer_ok_def) blast
  ultimately show ?thesis using end_closure_sys [OF assms(2) o_answer(3-6)] o_answer(1) by blast
next
  case (o_throw p i t' r q dis ws e)
  have "answer_ok P services (task_id t', r, q, None)" using body_of_Throws [OF o_throw(7,8)] by (simp add: answer_ok_def)
  with end_closure_sys [OF assms(2) o_throw(3-6) refl] o_throw(1) show ?thesis by blast
qed

lemma quiet_event_inv:
  assumes "sys_inv P services s" and "main_at s = Waiting_events" and "kernel_ok ev (srv s)"
    and "\<not> brings_data ev (srv s)" and "HandleEpollEvent P b ev (srv s) = Done s'"
  shows "sys_inv P services (s\<lparr>srv := s'\<rparr>)"
proof (rule sys_invI)
  note i = sys_invD [OF assms(1)]
  note part = quiet_event_part [OF assms(5,4)]
  show "cycle_inv (srv (s\<lparr>srv := s'\<rparr>))" using HandleEpollEvent_inv [OF assms(5) i(1) assms(3)] by simp
  show "coupled (srv (s\<lparr>srv := s'\<rparr>)) (executed (s\<lparr>srv := s'\<rparr>))" using coupled_part [OF part] i(2) by simp
  show "thread_inv (main_at (s\<lparr>srv := s'\<rparr>)) (srv (s\<lparr>srv := s'\<rparr>))"
    using part i(3) assms(2) by (simp add: pool_part_def thread_inv_def)
qed (use sys_invD(4) [OF assms(1)] in simp)

lemma read_event_inv:
  assumes "sys_inv P services s" and "main_at s = Waiting_events"
    and "GetConnection (conns (srv s)) f = Some r" and "Read rs (heap (srv s) r) = Done (ok, c, rs')"
  shows "sys_inv P services (s\<lparr>srv := (srv s)\<lparr>heap := (heap (srv s))(r := c)\<rparr>, main_at := Cutting f r\<rparr>)" (is "sys_inv P services ?t")
proof (rule sys_invI)
  note i = sys_invD [OF assms(1)]
  show "cycle_inv (srv ?t)" using heap_inv [OF i(1) Read_Done(3) [OF assms(4)]] by simp
  have "pool_part (srv ?t) = pool_part (srv s)" by simp
  from coupled_part [OF this] i(2) show "coupled (srv ?t) (executed ?t)" by simp
  show "thread_inv (main_at ?t) (srv ?t)" using i(3) assms(2,3) by (simp add: thread_inv_def GetConnection_def)
qed (use sys_invD(4) [OF assms(1)] in simp)

lemma control_unfinished:
  "unfinished (snd (shutdown_begin p)) = unfinished p" "unfinished (snd (shutdown_timeout p)) = unfinished p"
  "unfinished (shutdown_stop p) = unfinished p"
  by (simp_all add: unfinished_def shutdown_begin_def shutdown_timeout_def shutdown_stop_def)

lemma joined_unfinished: "shutdown_returns_true p \<Longrightarrow> pool_inv p \<Longrightarrow> unfinished p = {#}"
  using all_exited_held [of "workers p"] by (auto simp: shutdown_returns_true_def unfinished_def inv_defs)

lemma no_pool_inv:
  assumes "sys_inv P services s" and "thread_pool (srv s) = Some p" and "shutdown_returns_true p"
  shows "sys_inv P services (s\<lparr>srv := (srv s)\<lparr>thread_pool := None\<rparr>, main_at := Exited\<rparr>)" (is "sys_inv P services ?t")
proof (rule sys_invI)
  note i = sys_invD [OF assms(1)]
  have "(fst \<circ> snd) ` set (jobs (srv s)) \<subseteq> Collect (live (srv s))" unfolding live_def by blast
  from jobs_inv(1) [OF i(1) this, where tp = None and n = "next_job (srv s)"]
  show "cycle_inv (srv ?t)" by simp
  show "coupled (srv ?t) (executed ?t)"
    using i(2) joined_unfinished [OF assms(3) pool_facts(1) [OF assms(1,2)]] assms(2)
    by (auto simp: coupled_def pool_ok_def pool_jobs_def)
  show "thread_inv (main_at ?t) (srv ?t)" by (simp add: thread_inv_def)
qed (use sys_invD(4) [OF assms(1)] in simp)

lemma main_inv:
  assumes "sys_inv P services s" and "\<And>f r. m \<noteq> Cutting f r" and "looping m \<Longrightarrow> looping (main_at s)"
  shows "sys_inv P services (s\<lparr>main_at := m\<rparr>)"
  using assms by (simp add: sys_inv_def thread_inv_def)

interpretation rpc: invariant_system sys_init "sys_step P services" "sys_inv P services" for P services
proof
  fix s assume s: "sys_init s"
  then have "cycle_inv (srv s)" by (intro cycle.inv_init) (simp add: sys_init_def)
  moreover have "pool_jobs (thread_pool (srv s)) = {#}" "pool_ok (thread_pool (srv s))"
    "\<forall>p. thread_pool (srv s) = Some p \<longrightarrow> pstate p = RUNNING"
    using s pool_system.inv_init
    by (auto simp: sys_init_def pool_init_def pool_jobs_def pool_ok_def unfinished_def ThreadPool_config_def
        count_replicate split: option.split)
  ultimately show "sys_inv P services s"
    using s by (simp add: sys_inv_def coupled_def sys_init_def cycle_init_def thread_inv_def)
next
  fix s t assume "sys_step P services s t" and inv: "sys_inv P services s"
  then show "sys_inv P services t"
  proof cases
    case y_own
    then show ?thesis using inv by (rule own_step_inv)
  next
    case (y_event ev s')
    with quiet_event_inv [OF inv] show ?thesis by blast
  next
    case (y_read ev r c rs)
    with read_event_inv [OF inv y_read(2,4,5)] show ?thesis by simp
  next
    case (y_signal s')
    with inv show ?thesis
      by (auto simp: SignalHandler_def sys_inv_def Stop_def running_inv thread_inv_def coupled_def)
  next
    case y_leave
    with main_inv [OF inv, of Loop_left] show ?thesis by simp
  next
    case y_no_pool
    with main_inv [OF inv, of Exited] show ?thesis by simp
  next
    case (y_refused p r q)
    with pool_facts [OF inv y_refused(3)] show ?thesis by (simp add: shutdown_begin_def)
  next
    case (y_shutdown p q)
    note p = pool_facts [OF inv y_shutdown(3)]
    from y_shutdown(4) have q: "q = snd (shutdown_begin p)" by simp
    have "pool_inv q" unfolding q by (rule control_inv(3) [OF p(1)])
    from pool_update_inv [OF inv y_shutdown(3) this, of Shutting_pool] show ?thesis
      using y_shutdown(1) control_unfinished(1) by (simp add: q)
  next
    case (y_drained p)
    note p = pool_facts [OF inv y_drained(3)]
    have "sys_inv P services (s\<lparr>srv := (srv s)\<lparr>thread_pool := Some (shutdown_stop p)\<rparr>, main_at := main_at s\<rparr>)"
      by (rule pool_update_inv [OF inv y_drained(3) control_inv(4) [OF p(1) y_drained(5)]])
         (simp_all add: control_unfinished y_drained(2))
    with y_drained(1) show ?thesis by simp
  next
    case (y_timeout p)
    note p = pool_facts [OF inv y_timeout(3)]
    from pool_update_inv [OF inv y_timeout(3) control_inv(5) [OF p(1)], of Exited] y_timeout(1)
    show ?thesis by (simp add: control_unfinished)
  next
    case (y_joined p)
    with no_pool_inv [OF inv] show ?thesis by blast
  qed
qed

end
