(* ===== verification/Server_Progress.thy ===== *)
theory Server_Progress
  imports Server_System
begin

text \<open>
  Progress of the running server, a concrete run of it, the correspondence of its steps with the
  event handler of \<open>Message_Cycle\<close>, and the properties of the whole.
\<close>

section \<open>Progress\<close>

text \<open>
  What the threads still have to do without new input: bytes to cut (each frame costs at least
  one and adds at most one task and one thread) and the work of the pool.
\<close>

definition sys_work :: "rpc_system \<Rightarrow> nat" where
  "sys_work s =
     (case main_at s of Cutting f r \<Rightarrow> 1 + 5 * length (read_buffer (heap (srv s) r)) | _ \<Rightarrow> 0)
     + (case thread_pool (srv s) of None \<Rightarrow> 0 | Some p \<Rightarrow> pool_work p)"

definition pool_serves :: "server \<Rightarrow> bool" where
  "pool_serves s \<longleftrightarrow> (\<exists>p. thread_pool s = Some p \<and> core_threads (config p) > 0
     \<and> (pstate p = RUNNING \<or> pstate p = SHUTTING_DOWN))"

definition settled :: "rpc_system \<Rightarrow> bool" where
  "settled s \<longleftrightarrow> \<not> process_alive s \<or> (jobs (srv s) = [] \<and> (\<forall>f r. main_at s \<noteq> Cutting f r))"

lemma HandleRpcRequestSync_buffer:
  "HandleRpcRequestSync P services dis ws c q = Done (ok, out, c', ws') \<Longrightarrow> read_buffer c' = read_buffer c"
proof (cases rule: closure_cases [of P services q])
  case writes
  assume h: "HandleRpcRequestSync P services dis ws c q = Done (ok, out, c', ws')"
  from writes [of dis] obtain data where "HandleRpcRequestSync P services dis ws c q = Write ws data c" by blast
  with h Write_Done(4) show ?thesis by metis
qed simp_all

lemma end_closure_buffer:
  "read_buffer c = read_buffer (heap s (fst (snd j))) \<Longrightarrow>
   read_buffer (heap (end_closure i t p j c s) r) = read_buffer (heap s r)"
  by (simp add: end_closure_def end_job_def release_def Close_def)

lemma worker_finish_work:
  assumes "i < length (workers p)" and "workers p ! i = W_running t"
  shows "pool_work (finish_task i t p) < pool_work p"
  by (rule worker_step_work [OF w_finish [OF assms]])

lemma worker_start_work:
  assumes "i < length (workers p)" and "workers p ! i = W_picked t"
  shows "pool_work (start_task i t p) < pool_work p"
  by (rule worker_step_work [OF w_start [OF assms]])

lemma HandleRpcRequest_work:
  assumes "HandleRpcRequest P b r q s = Done s'" and "thread_pool s = Some p"
  shows "\<exists>p'. thread_pool s' = Some p' \<and> pool_work p' \<le> pool_work p + 4 \<and> config p' = config p \<and> pstate p' = pstate p"
proof -
  obtain res p' where e: "enqueue (can_spawn P) \<lparr>task_id = next_job s, priority = NORMAL, task_body = b\<rparr> p = (res, p')"
    by fastforce
  show ?thesis
  proof (cases res)
    case Rejected
    with e have "p' = p" using enqueue_Rejected by blast
    with Rejected e assms show ?thesis by (auto simp: HandleRpcRequest_pool pool_for_def)
  next
    case Accepted
    with e assms show ?thesis
      using enqueue_fields [OF e [unfolded Accepted]] by (auto simp: HandleRpcRequest_pool pool_for_def)
  qed (use e assms in \<open>simp add: HandleRpcRequest_pool pool_for_def\<close>)
qed

text \<open>A step keeps a serving pool and takes something of the work.\<close>

lemma own_step_work:
  assumes "own_step P services s t" and "sys_inv P services s" and "pool_serves (srv s)"
  shows "pool_serves (srv t) \<and> sys_work t < sys_work s"
  using assms(1)
proof cases
  case (o_cut f r again s')
  obtain p where p: "thread_pool (srv s) = Some p" "core_threads (config p) > 0" "pstate p = RUNNING \<or> pstate p = SHUTTING_DOWN"
    using assms(3) by (auto simp: pool_serves_def)
  from o_cut(3) show ?thesis
  proof (cases rule: cut_frame_cases)
    case (ended st d c)
    then have "pool_part s' = pool_part (srv s)" by auto
    with p o_cut(1,2) ended(1) show ?thesis
      by (auto simp: pool_part_def pool_serves_def sys_work_def)
  next
    case (submitted d c q)
    from HandleRpcRequest_work [OF submitted(3)] p obtain p' where
      p': "thread_pool s' = Some p'" "pool_work p' \<le> pool_work p + 4" "config p' = config p" "pstate p' = pstate p"
      by auto
    have "heap s' r = c" using HandleRpcRequest_keeps [OF submitted(3)] by simp
    with ExtractFrame_consumes [OF submitted(2)] p p' o_cut(1,2) submitted(1) show ?thesis
      by (auto simp: pool_serves_def sys_work_def)
  qed
next
  case (o_die f r e)
  with assms(3) show ?thesis by (simp add: sys_work_def)
next
  case (o_take p i late q)
  with assms(3) worker_locked_fields [OF o_take(6)] worker_locked_work [OF o_take(6,4,5)] show ?thesis
    by (auto simp: pool_serves_def sys_work_def split: main_thread.split)
next
  case (o_start p i t')
  with assms(3) worker_start_work [OF o_start(4,5)] show ?thesis
    by (auto simp: pool_serves_def sys_work_def start_fields split: main_thread.split)
next
  case (o_answer p i t' r q dis ws ok out c ws')
  let ?s = "end_closure i t' p (task_id t', r, q) c (srv s)"
  have "thread_pool ?s = Some (finish_task i t' p)"
    using end_closure_part [of i t' p "(task_id t', r, q)" c "srv s"] by (simp add: pool_part_def)
  moreover have "read_buffer (heap ?s r') = read_buffer (heap (srv s) r')" for r'
    using HandleRpcRequestSync_buffer [OF o_answer(7)] by (intro end_closure_buffer) simp
  ultimately show ?thesis
    using o_answer(1,3) assms(3) worker_finish_work [OF o_answer(4,5)]
    by (auto simp: pool_serves_def sys_work_def finish_fields split: main_thread.split)
next
  case (o_throw p i t' r q dis ws e)
  let ?s = "end_closure i t' p (task_id t', r, q) (heap (srv s) r) (srv s)"
  have "thread_pool ?s = Some (finish_task i t' p)"
    using end_closure_part [of i t' p "(task_id t', r, q)" "heap (srv s) r" "srv s"] by (simp add: pool_part_def)
  moreover have "read_buffer (heap ?s r') = read_buffer (heap (srv s) r')" for r'
    by (intro end_closure_buffer) simp
  ultimately show ?thesis
    using o_throw(1,3) assms(3) worker_finish_work [OF o_throw(4,5)]
    by (auto simp: pool_serves_def sys_work_def finish_fields split: main_thread.split)
qed

text \<open>The pool is never stuck on an unfinished task.\<close>

lemma held_worker: "t \<in># held ws \<Longrightarrow> \<exists>i<length ws. ws ! i = W_picked t \<or> ws ! i = W_running t"
proof (induction ws)
  case (Cons w ws)
  show ?case
  proof (cases "t \<in># held_by w")
    case True
    then show ?thesis by (intro exI [of _ 0]) (cases w; simp)
  next
    case False
    with Cons.prems have "t \<in># held ws" by (simp add: held_def)
    from Cons.IH [OF this] show ?thesis by (auto intro: exI [of _ "Suc i" for i])
  qed
qed (simp add: held_def)

lemma unfinished_progress:
  assumes "serving p" and "unfinished p \<noteq> {#}"
  shows "\<exists>q. worker_step p q"
proof (cases "tasks p = []")
  case True
  with assms(2) obtain t where "t \<in># held (workers p)" by (auto simp: unfinished_def)
  from held_worker [OF this] show ?thesis by (auto intro: w_start w_finish)
next
  case False
  with serving_progress [OF assms(1)] show ?thesis by (simp add: drained_def)
qed

lemma task_has_job:
  assumes "coupled s ex" and "thread_pool s = Some p" and "i < length (workers p)" and "workers p ! i = W_running t"
  shows "\<exists>r q. (task_id t, r, q) \<in> set (jobs s)"
proof -
  have "task_id t \<in># image_mset task_id (unfinished p)"
    using held_running [OF assms(3,4)] by (simp add: unfinished_def)
  moreover have "image_mset task_id (unfinished p) = mset (map fst (jobs s))"
    using assms(1,2) by (simp add: coupled_def pool_jobs_def)
  ultimately have "task_id t \<in># mset (map fst (jobs s))" by (simp only:)
  then have "task_id t \<in> fst ` set (jobs s)" by simp
  then obtain x where "task_id t = fst x" "x \<in> set (jobs s)" by blast
  then have "(task_id t, fst (snd x), snd (snd x)) \<in> set (jobs s)" by simp
  then show ?thesis by blast
qed

text \<open>A step of a worker is a step of the system: a closure that is being run can end.\<close>

lemma worker_own_step:
  assumes "worker_step p q" and "thread_pool (srv s) = Some p" and "process_alive s"
    and "coupled (srv s) ex" and "services_throw services"
  shows "\<exists>t. own_step P services s t"
  using assms(1)
proof cases
  case (w_locked i late)
  with assms(2,3) show ?thesis by (blast intro: o_take)
next
  case (w_start i t)
  with assms(2,3) show ?thesis by (blast intro: o_start)
next
  case (w_finish i t)
  from task_has_job [OF assms(4,2) w_finish(2,3)] obtain r rq where j: "(task_id t, r, rq) \<in> set (jobs (srv s))" by blast
  from closure_may_end [OF assms(5), of P "heap (srv s) r" rq] show ?thesis
  proof
    assume "\<exists>dis ws ok out c' ws'. HandleRpcRequestSync P services dis ws (heap (srv s) r) rq = Done (ok, out, c', ws')"
    then show ?thesis using o_answer [OF assms(3,2) w_finish(2,3) j] by blast
  next
    assume "\<exists>e. thrown e \<and> HandleRpcRequestSync P services (\<lambda>_. 0) [] (heap (srv s) r) rq = Fault e"
    then show ?thesis using o_throw [OF assms(3,2) w_finish(2,3) j] by blast
  qed
qed

text \<open>The frame loop waits only for a queue that is full, so only while there are tasks.\<close>

lemma cut_frame_Blocked:
  assumes "cut_frame P b f r s = Blocked" and "thread_pool s = Some p"
  shows "tasks p \<noteq> []"
proof -
  obtain d c q where "HandleRpcRequest P (b q) r q (s\<lparr>heap := (heap s)(r := c)\<rparr>) = Blocked"
    using assms(1)
    by (auto simp: cut_frame_def Let_def split: sum.splits prod.splits frame_status.splits bool.splits run.splits)
  then obtain q' where "enqueue (can_spawn P) \<lparr>task_id = next_job s, priority = NORMAL, task_body = b q\<rparr> p = (Waits, q')"
    using assms(2) by (auto simp: HandleRpcRequest_pool pool_for_def split: prod.splits enqueue_result.splits)
  then show ?thesis by (auto simp: enqueue_def Let_def split: if_splits)
qed

lemma own_step_exists:
  assumes "sys_inv P services s" and "pool_serves (srv s)" and "services_throw services" and "\<not> settled s"
  shows "\<exists>t. own_step P services s t"
proof -
  obtain p where p: "thread_pool (srv s) = Some p" "core_threads (config p) > 0" "pstate p = RUNNING \<or> pstate p = SHUTTING_DOWN"
    using assms(2) by (auto simp: pool_serves_def)
  note i = sys_invD [OF assms(1)]
  have serving: "serving p" using p pool_facts(1) [OF assms(1) p(1)] by (simp add: serving_def)
  have alive: "process_alive s" using assms(4) by (simp add: settled_def)
  have work: "\<exists>t. own_step P services s t" if "unfinished p \<noteq> {#}"
    using unfinished_progress [OF serving that] worker_own_step [OF _ p(1) alive i(2) assms(3)] by blast
  show ?thesis
  proof (cases "\<exists>f r. main_at s = Cutting f r")
    case True
    then obtain f r where m: "main_at s = Cutting f r" by blast
    show ?thesis
    proof (cases "cut_frame P (body_of P services) f r (srv s)")
      case Blocked
      from cut_frame_Blocked [OF this p(1)] show ?thesis by (intro work) (simp add: unfinished_def)
    next
      case (Fault e)
      with m show ?thesis by (blast intro: o_die)
    next
      case (Done x)
      with m show ?thesis by (cases x) (blast intro: o_cut)
    qed
  next
    case False
    with assms(4) alive have "jobs (srv s) \<noteq> []" by (simp add: settled_def)
    with i(2) p(1) have "unfinished p \<noteq> {#}" by (auto simp: coupled_def pool_jobs_def)
    then show ?thesis by (rule work)
  qed
qed

text \<open>
  The threads on their own as a terminating activity; the hypothesis on the services is part of
  the invariant, since it is about no state.
\<close>

definition serves_inv :: "platform \<Rightarrow> service_table \<Rightarrow> rpc_system \<Rightarrow> bool" where
  "serves_inv P services s \<longleftrightarrow> sys_inv P services s \<and> pool_serves (srv s) \<and> services_throw services"

interpretation server_progress: progress_system "own_step P services" "serves_inv P services" sys_work settled
  for P services
  by unfold_locales
     (auto simp: serves_inv_def dest: own_step_inv own_step_work intro: own_step_exists)

section \<open>An event as one step\<close>

text \<open>Updating the object in the heap before or after submitting makes no difference.\<close>

lemma HandleRpcRequest_heap:
  "HandleRpcRequest P b r q (s\<lparr>heap := h\<rparr>) =
     (case HandleRpcRequest P b r q s of Blocked \<Rightarrow> Blocked | Fault e \<Rightarrow> Fault e | Done s' \<Rightarrow> Done (s'\<lparr>heap := h\<rparr>))"
  by (simp add: HandleRpcRequest_pool pool_for_def split: prod.split enqueue_result.split)

lemma loop_cut_steps:
  assumes "HandleClientData_loop P (body_of P services) r c s = Done (keep, c', s')"
  shows "steps (own_step P services)
     \<lparr>srv = s\<lparr>heap := (heap s)(r := c)\<rparr>, main_at = Cutting f r, executed = ex\<rparr>
     \<lparr>srv = release r (if keep then s'\<lparr>heap := (heap s')(r := c')\<rparr>
              else RemoveConnection f (s'\<lparr>heap := (heap s')(r := c')\<rparr>)),
       main_at = Waiting_events, executed = ex\<rparr>"
  using assms
proof (induction "length (read_buffer c)" arbitrary: c s rule: less_induct)
  case less
  let ?b = "body_of P services" and ?s = "s\<lparr>heap := (heap s)(r := c)\<rparr>"
  obtain st d c1 where x: "ExtractFrame (zlib P) (memory P) c [] = Inr (st, d, c1)"
    using less.prems by (subst (asm) HandleClientData_loop.simps) (auto split: sum.splits)
  show ?case
  proof (cases "\<exists>q s1. st = kComplete \<and> RpcRequest_Deserialize d new_request = Inr (True, q) \<and> HandleRpcRequest P (?b q) r q s = Done s1")
    case True
    then obtain q s1 where q: "st = kComplete" "RpcRequest_Deserialize d new_request = Inr (True, q)"
      and h: "HandleRpcRequest P (?b q) r q s = Done s1" by blast
    have rest: "HandleClientData_loop P ?b r c1 s1 = Done (keep, c', s')"
      using less.prems x q h by (subst (asm) HandleClientData_loop.simps) simp
    have "length (read_buffer c1) < length (read_buffer c)" using ExtractFrame_consumes x q(1) by blast
    note ih = less.hyps [OF this rest]
    have "cut_frame P ?b f r ?s = Done (True, s1\<lparr>heap := (heap s1)(r := c1)\<rparr>)"
      using x q h HandleRpcRequest_heap [where s = s and h = "(heap s)(r := c1)"] HandleRpcRequest_keeps [OF h]
      by (simp add: cut_frame_def)
    then have "own_step P services \<lparr>srv = ?s, main_at = Cutting f r, executed = ex\<rparr>
        \<lparr>srv = s1\<lparr>heap := (heap s1)(r := c1)\<rparr>, main_at = Cutting f r, executed = ex\<rparr>"
      using o_cut [of "\<lparr>srv = ?s, main_at = Cutting f r, executed = ex\<rparr>" f r P services True] by simp
    from steps_trans [OF ih steps_single [where step = "own_step P services", OF this]] show ?thesis .
  next
    case False
    with less.prems x have e: "c' = c1" "s' = s"
      "cut_frame P ?b f r ?s = Done (False, release r (if keep then s\<lparr>heap := (heap s)(r := c1)\<rparr>
         else RemoveConnection f (s\<lparr>heap := (heap s)(r := c1)\<rparr>)))"
      by (subst (asm) HandleClientData_loop.simps;
          auto simp: cut_frame_def Let_def split: frame_status.splits sum.splits prod.splits bool.splits run.splits)+
    show ?thesis
      using o_cut [of "\<lparr>srv = ?s, main_at = Cutting f r, executed = ex\<rparr>" f r P services False] e
      by (cases keep) (intro steps_single, simp)+
  qed
qed

lemma system_update:
  "(\<lparr>srv = a, main_at = m, executed = ex\<rparr> :: rpc_system)\<lparr>srv := b\<rparr> = \<lparr>srv = b, main_at = m, executed = ex\<rparr>"
  by simp

lemma event_steps:
  assumes "HandleEpollEvent P (body_of P services) ev s = Done s'" and "kernel_ok ev s"
  shows "steps (sys_step P services)
     \<lparr>srv = s, main_at = Waiting_events, executed = ex\<rparr> \<lparr>srv = s', main_at = Waiting_events, executed = ex\<rparr>"
    (is "steps _ ?a ?z")
proof (cases "brings_data ev s")
  case False
  have "sys_step P services ?a (?a\<lparr>srv := s'\<rparr>)"
    using assms False by (intro y_event [where ev = ev]) simp_all
  then show ?thesis unfolding system_update by (rule steps_single)
next
  case True
  let ?f = "data_fd ev"
  from True obtain r c rs where r: "GetConnection (conns s) ?f = Some r" and rd: "Read (reads ev) (heap s r) = Done (True, c, rs)"
    by (auto simp: brings_data_def)
  from True assms(1) have "HandleClientData P (body_of P services) (reads ev) ?f s = Done s'"
    by (simp add: HandleEpollEvent_def brings_data_def)
  with r rd obtain keep c' s1 where lp: "HandleClientData_loop P (body_of P services) r c s = Done (keep, c', s1)"
    and s': "s' = release r (if keep then s1\<lparr>heap := (heap s1)(r := c')\<rparr>
                 else RemoveConnection ?f (s1\<lparr>heap := (heap s1)(r := c')\<rparr>))"
    by (auto simp: HandleClientData_def Let_def split: run.splits)
  let ?m = "\<lparr>srv = s\<lparr>heap := (heap s)(r := c)\<rparr>, main_at = Cutting ?f r, executed = ex\<rparr>"
  have "sys_step P services ?a ?m"
    using y_read [of ?a ev r c rs P services] True r rd by simp
  then have first: "steps (sys_step P services) ?a ?m" by (rule steps_single)
  have own: "steps (own_step P services) x y \<Longrightarrow> steps (sys_step P services) x y" for x y
    by (induction rule: steps.induct) (auto intro: steps_refl steps_snoc y_own)
  have "steps (sys_step P services) ?m ?z"
    using own [OF loop_cut_steps [OF lp, of ?f ex]] unfolding s' .
  from steps_trans [OF this first] show ?thesis .
qed

section \<open>A concrete run\<close>

lemma loop_serves:
  "HandleClientData_loop P b r c s = Done (keep, c', s') \<Longrightarrow> pool_serves s \<Longrightarrow> pool_serves s'"
proof (induction "length (read_buffer c)" arbitrary: c s rule: less_induct)
  case less
  from less.prems(1) show ?case
  proof (cases rule: HandleClientData_loop_cases)
    case (continue frame c1 q s1)
    from HandleRpcRequest_work [OF continue(2)] less.prems(2) have "pool_serves s1"
      by (fastforce simp: pool_serves_def)
    with less.hyps [OF ExtractFrame_consumes [OF continue(1)] continue(3)] show ?thesis .
  qed (use less.prems(2) in simp)
qed

lemma event_serves:
  assumes "HandleEpollEvent P b ev s = Done s'" and "pool_serves s"
  shows "pool_serves s'"
proof (cases "brings_data ev s")
  case False
  from quiet_event_part [OF assms(1) this] assms(2) show ?thesis by (simp add: pool_part_def pool_serves_def)
next
  case True
  with assms(1) obtain r c rs where "conns s (data_fd ev) = Some r" "Read (reads ev) (heap s r) = Done (True, c, rs)"
    "HandleClientData P b (reads ev) (data_fd ev) s = Done s'"
    by (auto simp: HandleEpollEvent_def brings_data_def GetConnection_def)
  then obtain keep c' s1 where lp: "HandleClientData_loop P b r c s = Done (keep, c', s1)"
    and s': "s' = release r (if keep then s1\<lparr>heap := (heap s1)(r := c')\<rparr>
                 else RemoveConnection (data_fd ev) (s1\<lparr>heap := (heap s1)(r := c')\<rparr>))"
    by (auto simp: HandleClientData_def GetConnection_def Let_def split: run.splits)
  have "pool_part s' = pool_part s1" unfolding s' by simp
  with loop_serves [OF lp assms(2)] show ?thesis by (simp add: pool_part_def pool_serves_def)
qed

lemma sample_serving:
  "\<exists>s. reach sys_init (sys_step sample_platform Map.empty) s \<and> main_at s = Waiting_events
     \<and> map snd (jobs (srv s)) = [(0, sample_request)] \<and> pool_serves (srv s)"
proof -
  let ?P = sample_platform and ?st = "\<lambda>s. \<lparr>srv = s, main_at = Waiting_events, executed = []\<rparr>"
  obtain ev t where t: "kernel_ok ev sample_connected" "map snd (jobs t) = [(0, sample_request)]"
    and ev: "HandleEpollEvent ?P (body_of ?P Map.empty) ev sample_connected = Done t"
    using sample_received [of "body_of ?P Map.empty"] by (elim exE conjE)
  have "reach sys_init (sys_step ?P Map.empty) (?st sample_server)"
    by (rule reach_init)
       (simp add: sys_init_def cycle_init_def sample_server_def pool_init_def ThreadPool_threads_def exI [of _ "\<lparr>core_threads = 2, max_threads = 2, max_queue_size = 0\<rparr>"])
  from steps_reach [OF event_steps [OF sample_accepted(2,1)] this]
  have "reach sys_init (sys_step ?P Map.empty) (?st sample_connected)" .
  from steps_reach [OF event_steps [OF ev t(1)] this] have r: "reach sys_init (sys_step ?P Map.empty) (?st t)" .
  have "pool_serves sample_server"
    by (simp add: pool_serves_def sample_server_def ThreadPool_threads_def ThreadPool_config_def)
  with event_serves [OF ev event_serves [OF sample_accepted(2)]] have "pool_serves t" by blast
  with r t(2) show ?thesis by (intro exI [of _ "?st t"]) simp
qed

section \<open>Properties\<close>

text \<open>
  C5. Every request is executed exactly once: in every reachable state of the running server, each
  request number given out so far is held by exactly one submitted closure or by one execution, and
  by no two; the submitted closures are exactly the tasks that are queued or in a worker's hands;
  and when \<open>main\<close> has left \<open>shutdown\<close> with the pool released, every one has been executed.
\<close>

theorem every_request_once:
  assumes "reach sys_init (sys_step P services) s"
  shows "(\<forall>n. count (mset (map fst (jobs (srv s)))) n + count (mset (map fst (executed s))) n
            = (if n < next_job (srv s) then 1 else 0))
     \<and> (case thread_pool (srv s) of
          None \<Rightarrow> jobs (srv s) = []
        | Some p \<Rightarrow> mset (map fst (jobs (srv s))) = image_mset task_id (mset (tasks p) + held (workers p)))"
proof
  note c = sys_invD(2) [OF rpc.reach_inv [OF assms]]
  have "count (mset (map fst (jobs (srv s)))) n + count (mset (map fst (executed s))) n = count (mset [0..<next_job (srv s)]) n" for n
    using c unfolding coupled_def by (metis count_union)
  also have "count (mset [0..<k]) n = (if n < k then 1 else 0)" for n k :: nat
    by (simp add: count_mset_set')
  finally show "\<forall>n. count (mset (map fst (jobs (srv s)))) n + count (mset (map fst (executed s))) n
            = (if n < next_job (srv s) then 1 else 0)" by blast
  show "case thread_pool (srv s) of
          None \<Rightarrow> jobs (srv s) = []
        | Some p \<Rightarrow> mset (map fst (jobs (srv s))) = image_mset task_id (mset (tasks p) + held (workers p))"
    using c by (cases "thread_pool (srv s)") (auto simp: coupled_def pool_jobs_def unfinished_def)
qed

theorem every_request_once_witness:
  "\<exists>s. reach sys_init (sys_step sample_platform Map.empty) s \<and> map snd (jobs (srv s)) = [(0, sample_request)]
     \<and> (\<exists>p. thread_pool (srv s) = Some p \<and> size (mset (tasks p) + held (workers p)) = 1)"
proof -
  obtain s where s: "reach sys_init (sys_step sample_platform Map.empty) s"
    "map snd (jobs (srv s)) = [(0, sample_request)]" "pool_serves (srv s)"
    using sample_serving by (elim exE conjE)
  then obtain p where p: "thread_pool (srv s) = Some p" by (auto simp: pool_serves_def)
  have "size (mset (map fst (jobs (srv s)))) = 1" using arg_cong [OF s(2), of length] by simp
  moreover have "mset (map fst (jobs (srv s))) = image_mset task_id (mset (tasks p) + held (workers p))"
    using every_request_once [OF s(1)] p by simp
  ultimately have "size (mset (tasks p) + held (workers p)) = 1" by (metis size_image_mset)
  with s p show ?thesis by (intro exI [of _ s]) simp
qed

text \<open>What became of a submitted closure after some steps.\<close>

definition job_kept :: "nat \<times> conn_ref \<times> rpc_request \<Rightarrow> rpc_system \<Rightarrow> bool" where
  "job_kept j s \<longleftrightarrow> j \<in> set (jobs (srv s)) \<or> (\<exists>out. (fst j, fst (snd j), snd (snd j), out) \<in> set (executed s))"

lemma end_closure_kept:
  assumes "job_kept j s"
  shows "job_kept j (s\<lparr>srv := end_closure i t p (n, r, q) c (srv s), executed := (n, r, q, out) # executed s\<rparr>)"
proof -
  have "jobs (end_closure i t p (n, r, q) c (srv s)) = remove1 (n, r, q) (jobs (srv s))"
    using end_closure_part [of i t p "(n, r, q)" c "srv s"] by (simp add: pool_part_def)
  with assms show ?thesis by (cases "j = (n, r, q)") (auto simp: job_kept_def in_set_remove1)
qed

lemma cut_frame_jobs:
  assumes "cut_frame P b f r s = Done (again, s')"
  shows "set (jobs s) \<subseteq> set (jobs s')"
  using assms
proof (cases rule: cut_frame_cases)
  case (ended st d c)
  then have "pool_part s' = pool_part s" by auto
  then show ?thesis by (simp add: pool_part_def)
next
  case (submitted d c q)
  from HandleRpcRequest_Done [OF submitted(3)] show ?thesis by auto
qed

lemma sys_step_kept:
  assumes "sys_step P services s t" and "job_kept j s"
  shows "job_kept j t"
  using assms(1)
proof cases
  case y_own
  then show ?thesis
  proof cases
    case (o_cut f r again s')
    with cut_frame_jobs [OF o_cut(3)] assms(2) show ?thesis by (auto simp: job_kept_def)
  qed (use assms(2) end_closure_kept in \<open>auto simp: job_kept_def\<close>)
next
  case (y_event ev s')
  with quiet_event_part [OF y_event(5,4)] assms(2) show ?thesis by (simp add: pool_part_def job_kept_def)
qed (use assms(2) in \<open>auto simp: job_kept_def SignalHandler_def Stop_def\<close>)

lemma kept_outcome:
  assumes "sys_inv P services s" and "job_kept (n, r, q) s"
  shows "(n, r, q) \<in> set (jobs (srv s))
     \<or> ((n, r, q, None) \<in> set (executed s) \<and> body_of P services q = Throws)
     \<or> (\<exists>out. (n, r, q, Some out) \<in> set (executed s)
          \<and> (\<exists>dis ws c ok c' ws'. HandleRpcRequestSync P services dis ws c q = Done (ok, out, c', ws')))"
proof -
  have "answer_ok P services x" if "x \<in> set (executed s)" for x using sys_invD(4) [OF assms(1) that] .
  with assms(2) consider "(n, r, q) \<in> set (jobs (srv s))"
    | out where "(n, r, q, out) \<in> set (executed s)" "answer_ok P services (n, r, q, out)"
    by (auto simp: job_kept_def)
  then show ?thesis
  proof cases
    case (2 out)
    then show ?thesis by (cases out) (auto simp: answer_ok_def)
  qed simp
qed









end
