(* ===== verification/Inet.thy ===== *)
theory Inet
  imports Prelude
begin

text \<open>
  What the client and the listening socket use of the C++ and C libraries: \<open>std::string::find\<close>,
  \<open>std::stoi\<close>, \<open>htons\<close> of an \<open>int\<close> and \<open>inet_pton\<close> for IPv4; and the kernel's table of open
  sockets with what the program does to them.
\<close>

section \<open>Parsing numbers and addresses\<close>

definition colon :: byte where "colon = 58"

definition is_digit :: "byte \<Rightarrow> bool" where
  "is_digit c \<longleftrightarrow> 48 \<le> c \<and> c \<le> 57"

definition is_space :: "byte \<Rightarrow> bool" where
  "is_space c \<longleftrightarrow> c = 32 \<or> (9 \<le> c \<and> c \<le> 13)"

definition digits_value :: "bytes \<Rightarrow> nat" where
  "digits_value ds = foldl (\<lambda>n d. 10 * n + (unat d - 48)) 0 ds"

text \<open>\<open>find\<close> of a character, and the two parts around it.\<close>

fun find_char :: "byte \<Rightarrow> bytes \<Rightarrow> nat option" where
  "find_char c [] = None"
| "find_char c (x # xs) = (if x = c then Some 0 else map_option Suc (find_char c xs))"

text \<open>
  \<open>std::stoi\<close>: white space, a sign, then all digits that follow; anything after them is ignored.
\<close>

definition stoi :: "bytes \<Rightarrow> fault + int" where
  "stoi s =
     (let s = dropWhile is_space s;
          (negative, s) = (case s of c # r \<Rightarrow> if c = 45 then (True, r) else if c = 43 then (False, r) else (False, s)
                           | [] \<Rightarrow> (False, s));
          ds = takeWhile is_digit s
      in if ds = [] then Inl Invalid_argument
         else let v = (if negative then - int (digits_value ds) else int (digits_value ds)) in
           if v < - (2 ^ 31) \<or> v \<ge> 2 ^ 31 then Inl Out_of_range else Inr v)"

text \<open>The port number the kernel reads back from \<open>sin_port = htons(port)\<close>: the low 16 bits.\<close>

definition sin_port :: "int \<Rightarrow> u16" where
  "sin_port port = of_int port"

fun split_at :: "byte \<Rightarrow> bytes \<Rightarrow> bytes list" where
  "split_at c [] = [[]]"
| "split_at c (x # xs) =
     (if x = c then [] # split_at c xs
      else case split_at c xs of [] \<Rightarrow> [[x]] | p # ps \<Rightarrow> (x # p) # ps)"

definition octet :: "bytes \<Rightarrow> nat option" where
  "octet ds = (if ds \<noteq> [] \<and> list_all is_digit ds \<and> (length ds > 1 \<longrightarrow> hd ds \<noteq> 48) \<and> digits_value ds \<le> 255
               then Some (digits_value ds) else None)"

text \<open>\<open>inet_pton(AF_INET, s.c_str(), ..)\<close>: exactly four decimal octets, none with a leading zero.\<close>

definition inet_pton :: "bytes \<Rightarrow> nat list option" where
  "inet_pton s =
     (let parts = split_at 46 (takeWhile (\<lambda>c. c \<noteq> 0) s); os = map octet parts in
      if length parts = 4 \<and> list_all (\<lambda>x. x \<noteq> None) os then Some (map the os) else None)"

section \<open>The decimal representation is read back\<close>

lemma digits_value_snoc: "digits_value (ds @ [d]) = 10 * digits_value ds + (unat d - 48)"
  by (simp add: digits_value_def)

lemma digit_byte:
  assumes "n < 10"
  shows "unat (of_nat (48 + n) :: byte) = 48 + n" and "is_digit (of_nat (48 + n))"
proof -
  show u: "unat (of_nat (48 + n) :: byte) = 48 + n"
    using assms by (simp add: unat_of_nat take_bit_eq_mod del: of_nat_add)
  show "is_digit (of_nat (48 + n))"
    using assms u by (simp add: is_digit_def word_le_nat_alt del: of_nat_add)
qed

lemma decimal_digits:
  "list_all is_digit (decimal n) \<and> decimal n \<noteq> [] \<and> digits_value (decimal n) = n"
proof (induction n rule: decimal.induct)
  case (1 n)
  show ?case
  proof (cases "n < 10")
    case True
    with digit_byte [OF True] show ?thesis
      by (subst decimal.simps, subst decimal.simps, subst decimal.simps)
         (simp add: digits_value_def del: of_nat_add)
  next
    case False
    have m: "n mod 10 < 10" by simp
    have e: "decimal n = decimal (n div 10) @ [of_nat (48 + n mod 10)]"
      using False by (subst decimal.simps) simp
    from digit_byte [OF m] 1 False show ?thesis
      unfolding e by (simp add: digits_value_snoc del: of_nat_add)
  qed
qed

lemma digit_no_space: "is_digit c \<Longrightarrow> \<not> is_space c \<and> c \<noteq> 45 \<and> c \<noteq> 43 \<and> c \<noteq> colon"
  by (auto simp: is_digit_def is_space_def colon_def word_le_nat_alt)

lemma stoi_decimal: "n < 2 ^ 31 \<Longrightarrow> stoi (decimal n) = Inr (int n)"
proof -
  assume "n < 2 ^ 31"
  note d = decimal_digits [of n]
  then obtain c r where c: "decimal n = c # r" "is_digit c" "list_all is_digit r" by (cases "decimal n") auto
  with digit_no_space [of c] have s: "dropWhile is_space (decimal n) = decimal n" by simp
  have t: "takeWhile is_digit (decimal n) = decimal n"
    using d by (simp add: list_all_iff takeWhile_eq_all_conv)
  have e: "(case decimal n of c # r \<Rightarrow> if c = 45 then (True, r) else if c = 43 then (False, r) else (False, decimal n)
      | [] \<Rightarrow> (False, decimal n)) = (False, decimal n)"
    using c digit_no_space [of c] by simp
  show ?thesis
    unfolding stoi_def Let_def s e prod.case t using d \<open>n < 2 ^ 31\<close> by simp
qed

lemma find_char_split: "colon \<notin> set a \<Longrightarrow> find_char colon (a @ colon # b) = Some (length a)"
  by (induction a) auto

section \<open>The kernel's table of sockets\<close>

record kernel =
  k_open :: "int set"
  k_nonblock :: "int set"
  k_bound :: "int \<rightharpoonup> nat list \<times> u16"
  k_listening :: "int \<rightharpoonup> int"
  k_peer :: "int \<rightharpoonup> nat list \<times> u16"

definition k_socket :: "int \<Rightarrow> kernel \<Rightarrow> kernel" where
  "k_socket f k = k\<lparr>k_open := insert f (k_open k)\<rparr>"

definition k_close :: "int \<Rightarrow> kernel \<Rightarrow> kernel" where
  "k_close f k = k\<lparr>k_open := k_open k - {f}, k_nonblock := k_nonblock k - {f}, k_bound := (k_bound k)(f := None),
     k_listening := (k_listening k)(f := None), k_peer := (k_peer k)(f := None)\<rparr>"

text \<open>A descriptor the kernel may return for a new socket: nothing refers to it.\<close>

definition k_free :: "int \<Rightarrow> kernel \<Rightarrow> bool" where
  "k_free f k \<longleftrightarrow> 0 \<le> f \<and> f \<notin> k_open k \<and> f \<notin> k_nonblock k \<and> k_bound k f = None \<and> k_listening k f = None
     \<and> k_peer k f = None"

lemma k_close_free [simp]: "k_free f k \<Longrightarrow> k_close f (k_socket f k) = k"
  by (cases k) (auto simp: k_free_def k_close_def k_socket_def fun_eq_iff)

end
