(* ===== verification/Service_Registry.thy ===== *)
theory Service_Registry
  imports Prelude
begin

text \<open>
  \<open>rpc_src/registry/service_registry.h\<close> and \<open>service_registry.cpp\<close>: registration in ZooKeeper.
  The ZooKeeper C client is third-party code: a record of its operations over a state \<open>'z\<close> of the
  outside world, with handles as numbers. A call returns its code and the world after it. The
  watcher runs on the client's own thread; \<open>zoo_events\<close> gives the session events it has delivered
  since it was last asked.
\<close>

datatype zrc = ZOK | ZNONODE | ZNODEEXISTS | Z_error int

datatype session_state =
  ZOO_CONNECTED_STATE | ZOO_CONNECTING_STATE | ZOO_EXPIRED_SESSION_STATE | ZOO_AUTH_FAILED_STATE
| ZOO_ASSOCIATING_STATE | ZOO_other_state int

datatype event_type = ZOO_SESSION_EVENT | ZOO_other_event

record 'z zk_lib =
  zookeeper_init :: "bytes \<Rightarrow> 'z \<Rightarrow> nat option \<times> 'z"
  zoo_events :: "nat \<Rightarrow> 'z \<Rightarrow> (event_type \<times> session_state) list \<times> 'z"
  zoo_state :: "nat \<Rightarrow> 'z \<Rightarrow> session_state \<times> 'z"
  zoo_exists :: "nat \<Rightarrow> bytes \<Rightarrow> 'z \<Rightarrow> zrc \<times> 'z"
  zoo_create :: "nat \<Rightarrow> bytes \<Rightarrow> bytes \<Rightarrow> bool \<Rightarrow> 'z \<Rightarrow> zrc \<times> 'z"
  zoo_get_children :: "nat \<Rightarrow> bytes \<Rightarrow> 'z \<Rightarrow> (zrc \<times> bytes list) \<times> 'z"
  zoo_get :: "nat \<Rightarrow> bytes \<Rightarrow> nat \<Rightarrow> 'z \<Rightarrow> (zrc \<times> bytes) \<times> 'z"
  zookeeper_close :: "nat \<Rightarrow> 'z \<Rightarrow> 'z"

section \<open>The registry object\<close>

record service_registry =
  zk_handle :: "nat option"
  is_connected :: bool

definition globalWatcher :: "event_type \<Rightarrow> session_state \<Rightarrow> service_registry \<Rightarrow> service_registry" where
  "globalWatcher type state registry =
     (if type = ZOO_SESSION_EVENT
      then if state = ZOO_CONNECTED_STATE then registry\<lparr>is_connected := True\<rparr>
           else registry\<lparr>is_connected := False\<rparr>
      else registry)"

text \<open>The watcher is called for every event delivered so far.\<close>

definition deliver :: "'z zk_lib \<Rightarrow> service_registry \<Rightarrow> 'z \<Rightarrow> service_registry \<times> 'z" where
  "deliver L registry w =
     (case zk_handle registry of
        None \<Rightarrow> (registry, w)
      | Some h \<Rightarrow> (case zoo_events L h w of (evs, w) \<Rightarrow>
          (fold (\<lambda>(type, state). globalWatcher type state) evs registry, w)))"

text \<open>The constructor's wait: at most ten rounds of half a second.\<close>

fun wait_connected :: "'z zk_lib \<Rightarrow> nat \<Rightarrow> service_registry \<Rightarrow> 'z \<Rightarrow> service_registry \<times> 'z" where
  "wait_connected L 0 registry w = (registry, w)"
| "wait_connected L (Suc n) registry w =
     (if is_connected registry then (registry, w)
      else case deliver L registry w of (registry, w) \<Rightarrow> wait_connected L n registry w)"

definition ServiceRegistry :: "'z zk_lib \<Rightarrow> bytes \<Rightarrow> 'z \<Rightarrow> (fault + service_registry) \<times> 'z" where
  "ServiceRegistry L zk_hosts w =
     (case zookeeper_init L zk_hosts w of
        (None, w) \<Rightarrow> (Inl Runtime_error, w)
      | (Some h, w) \<Rightarrow>
          (case wait_connected L 10 \<lparr>zk_handle = Some h, is_connected = False\<rparr> w of
             (registry, w) \<Rightarrow> (Inr registry, w)))"

definition ServiceRegistry_destroy :: "'z zk_lib \<Rightarrow> service_registry \<Rightarrow> 'z \<Rightarrow> service_registry \<times> 'z" where
  "ServiceRegistry_destroy L registry w =
     (case zk_handle registry of
        None \<Rightarrow> (registry, w)
      | Some h \<Rightarrow> (registry\<lparr>zk_handle := None\<rparr>, zookeeper_close L h w))"

definition isConnected :: "service_registry \<Rightarrow> bool" where
  "isConnected registry \<longleftrightarrow> is_connected registry \<and> zk_handle registry \<noteq> None"

section \<open>Nodes and paths\<close>

definition createNode :: "'z zk_lib \<Rightarrow> service_registry \<Rightarrow> bytes \<Rightarrow> bytes \<Rightarrow> bool \<Rightarrow> 'z \<Rightarrow> bool \<times> 'z" where
  "createNode L registry path data ephemeral w =
     (case zk_handle registry of
        None \<Rightarrow> (False, w)
      | Some h \<Rightarrow>
          (case zoo_create L h path data ephemeral w of (ret, w) \<Rightarrow>
             if ret = ZOK then (True, w)
             else if ret = ZNODEEXISTS then (True, w)
             else (False, w)))"

definition slash :: byte where "slash = 47"

definition find_last_of :: "byte \<Rightarrow> bytes \<Rightarrow> nat option" where
  "find_last_of c s =
     (if c \<in> set s then Some (length s - 1 - length (takeWhile (\<lambda>x. x \<noteq> c) (rev s))) else None)"

lemma find_last_of_less: "find_last_of c s = Some p \<Longrightarrow> p < length s"
  by (cases s) (auto simp: find_last_of_def split: if_splits)

function ensurePath :: "'z zk_lib \<Rightarrow> service_registry \<Rightarrow> bytes \<Rightarrow> 'z \<Rightarrow> bool \<times> 'z" where
  "ensurePath L registry path w =
     (if path = [] then (True, w)
      else case zk_handle registry of
        None \<Rightarrow> (False, w)
      | Some h \<Rightarrow>
          (case (case find_last_of slash path of
                   None \<Rightarrow> (True, w)
                 | Some pos \<Rightarrow> if pos > 0 then ensurePath L registry (take pos path) w else (True, w)) of
             (False, w) \<Rightarrow> (False, w)
           | (True, w) \<Rightarrow>
               (case zoo_exists L h path w of (ret, w) \<Rightarrow>
                  if ret = ZOK then (True, w)
                  else if ret = ZNONODE
                  then (case zoo_create L h path [] False w of (ret, w) \<Rightarrow>
                          if ret = ZOK then (True, w)
                          else if ret = ZNODEEXISTS then (True, w)
                          else (False, w))
                  else (False, w))))"
  by pat_completeness auto
termination
  by (relation "measure (\<lambda>(L, registry, path, w). length path)") (auto dest: find_last_of_less)

declare ensurePath.simps [simp del]

definition ROOT_PATH :: bytes where "ROOT_PATH = str ''/myrpc''"

definition service_path :: "bytes \<Rightarrow> bytes" where
  "service_path service_name = ROOT_PATH @ [slash] @ service_name"

definition Registry_registerService ::
  "'z zk_lib \<Rightarrow> service_registry \<Rightarrow> bytes \<Rightarrow> bytes \<Rightarrow> 'z \<Rightarrow> bool \<times> service_registry \<times> 'z" where
  "Registry_registerService L registry service_name service_address w =
     (case deliver L registry w of (registry, w) \<Rightarrow>
        if \<not> isConnected registry \<or> zk_handle registry = None then (False, registry, w)
        else case ensurePath L registry (service_path service_name) w of
          (False, w) \<Rightarrow> (False, registry, w)
        | (True, w) \<Rightarrow>
            let instance_path = service_path service_name @ [slash] @ service_address in
            (case createNode L registry instance_path service_address True w of (ok, w) \<Rightarrow> (ok, registry, w)))"

section \<open>The documented behaviour of the ZooKeeper client\<close>

text \<open>
  \<open>node w\<close> is the tree of the ensemble: the data of each path that exists. What the client
  library documents: \<open>zoo_exists\<close> and the reading calls change nothing and report what is there,
  \<open>zoo_create\<close> creates exactly the node it is asked for, or says that it was there, or fails.
\<close>

definition zk_documented :: "'z zk_lib \<Rightarrow> ('z \<Rightarrow> bytes \<Rightarrow> bytes option) \<Rightarrow> bool" where
  "zk_documented L node \<longleftrightarrow>
     (\<forall>h p w. case zoo_exists L h p w of (rc, w') \<Rightarrow> node w' = node w \<and> (rc = ZOK \<longrightarrow> node w p \<noteq> None))
   \<and> (\<forall>h p d e w. case zoo_create L h p d e w of (rc, w') \<Rightarrow>
        (if rc = ZOK then node w p = None \<and> node w' = (node w)(p \<mapsto> d)
         else node w' = node w \<and> (rc = ZNODEEXISTS \<longrightarrow> node w p \<noteq> None)))
   \<and> (\<forall>h w. node (snd (zoo_events L h w)) = node w)"

lemma zk_laws:
  assumes "zk_documented L node"
  shows zoo_exists_law: "zoo_exists L h p w = (rc, w') \<Longrightarrow> node w' = node w \<and> (rc = ZOK \<longrightarrow> node w p \<noteq> None)"
    and zoo_create_law: "zoo_create L h p d e w = (rc, w') \<Longrightarrow>
      (if rc = ZOK then node w p = None \<and> node w' = (node w)(p \<mapsto> d)
       else node w' = node w \<and> (rc = ZNODEEXISTS \<longrightarrow> node w p \<noteq> None))"
    and zoo_events_law: "node (snd (zoo_events L h w)) = node w"
proof -
  note d = assms [unfolded zk_documented_def]
  from conjunct1 [OF d] have "case zoo_exists L h p w of (rc, w') \<Rightarrow> node w' = node w \<and> (rc = ZOK \<longrightarrow> node w p \<noteq> None)"
    by (elim allE)
  then show "zoo_exists L h p w = (rc, w') \<Longrightarrow> node w' = node w \<and> (rc = ZOK \<longrightarrow> node w p \<noteq> None)" by simp
  from conjunct1 [OF conjunct2 [OF d]] have "case zoo_create L h p d e w of (rc, w') \<Rightarrow>
        (if rc = ZOK then node w p = None \<and> node w' = (node w)(p \<mapsto> d)
         else node w' = node w \<and> (rc = ZNODEEXISTS \<longrightarrow> node w p \<noteq> None))"
    by (elim allE)
  then show "zoo_create L h p d e w = (rc, w') \<Longrightarrow>
      (if rc = ZOK then node w p = None \<and> node w' = (node w)(p \<mapsto> d)
       else node w' = node w \<and> (rc = ZNODEEXISTS \<longrightarrow> node w p \<noteq> None))" by simp
  from conjunct2 [OF conjunct2 [OF d]] show "node (snd (zoo_events L h w)) = node w" by (elim allE)
qed

section \<open>What \<open>ensurePath\<close> leaves behind\<close>

text \<open>The paths on the way to \<open>path\<close>, itself included: its prefixes that end before a slash.\<close>

definition ancestors :: "bytes \<Rightarrow> bytes set" where
  "ancestors path = insert path {take i path | i. 0 < i \<and> i < length path \<and> path ! i = slash}"

lemma takeWhile_shorter: "c \<in> set xs \<Longrightarrow> length (takeWhile (\<lambda>x. x \<noteq> c) xs) < length xs"
  by (induction xs) auto

lemma find_last_of_Some:
  assumes "find_last_of c s = Some p"
  shows "s ! p = c" and "\<And>i. p < i \<Longrightarrow> i < length s \<Longrightarrow> s ! i \<noteq> c"
proof -
  let ?t = "takeWhile (\<lambda>x. x \<noteq> c) (rev s)"
  have c: "c \<in> set s" and p: "p = length s - 1 - length ?t"
    using assms by (auto simp: find_last_of_def split: if_splits)
  have lt: "length ?t < length (rev s)"
    using c by (intro takeWhile_shorter) simp
  have "rev s ! length ?t = c" using nth_length_takeWhile [OF lt] by simp
  moreover have "rev s ! length ?t = s ! p" using lt p by (simp add: rev_nth)
  ultimately show "s ! p = c" by simp
  fix i assume i: "p < i" "i < length s"
  then have "length s - 1 - i < length ?t" using p lt by simp
  then have "rev s ! (length s - 1 - i) = ?t ! (length s - 1 - i)" "?t ! (length s - 1 - i) \<in> set ?t"
    using takeWhile_nth by (metis, intro nth_mem)
  then have "rev s ! (length s - 1 - i) \<noteq> c" by (auto dest: set_takeWhileD)
  with i show "s ! i \<noteq> c" by (simp add: rev_nth)
qed

lemma find_last_of_None: "find_last_of c s = None \<Longrightarrow> i < length s \<Longrightarrow> s ! i \<noteq> c"
  by (auto simp: find_last_of_def split: if_splits)

lemma ancestors_split:
  "ancestors path = (case find_last_of slash path of
     None \<Rightarrow> {path} | Some pos \<Rightarrow> if pos > 0 then insert path (ancestors (take pos path)) else {path})"
proof (cases "find_last_of slash path")
  case None
  with find_last_of_None [OF None] show ?thesis by (auto simp: ancestors_def)
next
  case (Some pos)
  note less = find_last_of_less [OF Some]
  have "0 < i \<and> i < length path \<and> path ! i = slash \<longleftrightarrow> 0 < i \<and> (i = pos \<or> i < pos \<and> path ! i = slash)" for i
    using find_last_of_Some [OF Some] less by (metis linorder_neqE_nat order_less_trans)
  then have "ancestors path = insert path {take i path | i. 0 < i \<and> (i = pos \<or> i < pos \<and> path ! i = slash)}"
    by (simp add: ancestors_def)
  also have "\<dots> = (if pos > 0 then insert path (ancestors (take pos path)) else {path})"
    using less by (auto simp: ancestors_def) (metis less_imp_le min_absorb1 nth_take take_take)+
  finally show ?thesis using Some by simp
qed

lemma ensurePath_cases:
  assumes "ensurePath L registry path w = (ok, w')" and "path \<noteq> []" and "zk_handle registry = Some h"
  obtains okp w1 where
    "(case find_last_of slash path of None \<Rightarrow> (True, w)
       | Some pos \<Rightarrow> if pos > 0 then ensurePath L registry (take pos path) w else (True, w)) = (okp, w1)"
    "\<not> okp \<Longrightarrow> \<not> ok \<and> w' = w1"
    "okp \<Longrightarrow> \<exists>ret w2. zoo_exists L h path w1 = (ret, w2) \<and>
       (if ret = ZNONODE then \<exists>ret'. zoo_create L h path [] False w2 = (ret', w') \<and> (ok \<longleftrightarrow> ret' = ZOK \<or> ret' = ZNODEEXISTS)
        else (ok \<longleftrightarrow> ret = ZOK) \<and> w' = w2)"
proof -
  obtain okp w1 where p: "(case find_last_of slash path of None \<Rightarrow> (True, w)
       | Some pos \<Rightarrow> if pos > 0 then ensurePath L registry (take pos path) w else (True, w)) = (okp, w1)"
    by (metis surj_pair)
  show thesis
  proof (rule that [OF p])
    show "\<not> okp \<Longrightarrow> \<not> ok \<and> w' = w1"
      using assms p by (subst (asm) ensurePath.simps) simp
    assume okp
    obtain ret w2 where e: "zoo_exists L h path w1 = (ret, w2)" by fastforce
    obtain ret' w3 where c: "zoo_create L h path [] False w2 = (ret', w3)" by fastforce
    show "\<exists>ret w2. zoo_exists L h path w1 = (ret, w2) \<and>
       (if ret = ZNONODE then \<exists>ret'. zoo_create L h path [] False w2 = (ret', w') \<and> (ok \<longleftrightarrow> ret' = ZOK \<or> ret' = ZNODEEXISTS)
        else (ok \<longleftrightarrow> ret = ZOK) \<and> w' = w2)"
      using assms p \<open>okp\<close> e c by (subst (asm) ensurePath.simps) (auto split: if_splits)
  qed
qed

text \<open>What every branch of \<open>ensurePath\<close> keeps, and what success gives.\<close>

definition only_added :: "bytes set \<Rightarrow> (bytes \<Rightarrow> bytes option) \<Rightarrow> (bytes \<Rightarrow> bytes option) \<Rightarrow> bool" where
  "only_added ps t t' \<longleftrightarrow> (\<forall>p. t' p = t p \<or> t p = None \<and> p \<in> ps \<and> t' p = Some [])"

lemma only_added_trans:
  "only_added ps t t' \<Longrightarrow> only_added qs t' t'' \<Longrightarrow> ps \<subseteq> rs \<Longrightarrow> qs \<subseteq> rs \<Longrightarrow> only_added rs t t''"
  unfolding only_added_def by (metis subsetD)

lemma only_added_refl: "only_added ps t t"
  by (simp add: only_added_def)

lemma only_added_Some: "only_added ps t t' \<Longrightarrow> t p \<noteq> None \<Longrightarrow> t' p \<noteq> None"
  unfolding only_added_def by (metis option.distinct(1))

lemma ensurePath_spec:
  assumes doc: "zk_documented L node"
  shows "ensurePath L registry path w = (ok, w') \<Longrightarrow>
     only_added (ancestors path) (node w) (node w') \<and> (ok \<longrightarrow> path \<noteq> [] \<longrightarrow> (\<forall>p\<in>ancestors path. node w' p \<noteq> None))"
proof (induction "length path" arbitrary: path w ok w' rule: less_induct)
  case less
  show ?case
  proof (cases "path = [] \<or> zk_handle registry = None")
    case True
    with less.prems show ?thesis
      by (subst (asm) ensurePath.simps) (auto simp: only_added_refl split: if_splits)
  next
    case False
    then obtain h where ne: "path \<noteq> []" and h: "zk_handle registry = Some h" by blast
    from ensurePath_cases [OF less.prems ne h] obtain okp w1 where
      p: "(case find_last_of slash path of None \<Rightarrow> (True, w)
           | Some pos \<Rightarrow> if pos > 0 then ensurePath L registry (take pos path) w else (True, w)) = (okp, w1)"
      and no: "\<not> okp \<Longrightarrow> \<not> ok \<and> w' = w1"
      and yes: "okp \<Longrightarrow> \<exists>ret w2. zoo_exists L h path w1 = (ret, w2) \<and>
       (if ret = ZNONODE then \<exists>ret'. zoo_create L h path [] False w2 = (ret', w') \<and> (ok \<longleftrightarrow> ret' = ZOK \<or> ret' = ZNODEEXISTS)
        else (ok \<longleftrightarrow> ret = ZOK) \<and> w' = w2)" by blast
    let ?up = "ancestors path - {path}"
    have up: "only_added (ancestors path) (node w) (node w1) \<and> (okp \<longrightarrow> (\<forall>q\<in>?up. node w1 q \<noteq> None))"
    proof (cases "\<exists>pos>0. find_last_of slash path = Some pos")
      case True
      then obtain pos where pos: "0 < pos" "find_last_of slash path = Some pos" by blast
      have lt: "pos < length path" by (rule find_last_of_less [OF pos(2)])
      have "ensurePath L registry (take pos path) w = (okp, w1)" using p pos by simp
      from less.hyps [OF _ this] lt pos(1) have
        "only_added (ancestors (take pos path)) (node w) (node w1)"
        "okp \<longrightarrow> (\<forall>q\<in>ancestors (take pos path). node w1 q \<noteq> None)" by auto
      moreover have anc: "ancestors path = insert path (ancestors (take pos path))"
        using pos by (simp add: ancestors_split [of path])
      moreover have "only_added (ancestors path) (node w) (node w1)"
        using calculation(1) unfolding anc only_added_def by auto
      ultimately show ?thesis by simp
    next
      case False
      then consider "find_last_of slash path = None" | "find_last_of slash path = Some 0"
        by (cases "find_last_of slash path") auto
      then have "okp \<and> w1 = w" "ancestors path = {path}"
        by (cases; use p ancestors_split [of path] in simp)+
      then show ?thesis by (simp add: only_added_refl)
    qed
    have last: "only_added {path} (node w1) (node w') \<and> (ok \<longrightarrow> okp \<and> node w' path \<noteq> None)"
    proof (cases okp)
      case True
      from yes [OF True] obtain ret w2 where e: "zoo_exists L h path w1 = (ret, w2)"
        and r: "if ret = ZNONODE then \<exists>ret'. zoo_create L h path [] False w2 = (ret', w') \<and> (ok \<longleftrightarrow> ret' = ZOK \<or> ret' = ZNODEEXISTS)
                else (ok \<longleftrightarrow> ret = ZOK) \<and> w' = w2" by blast
      note el = zoo_exists_law [OF doc e]
      show ?thesis
      proof (cases "ret = ZNONODE")
        case F: False
        with r el True show ?thesis by (auto simp: only_added_refl)
      next
        case T: True
        with r obtain ret' where c: "zoo_create L h path [] False w2 = (ret', w')"
          and ok: "ok \<longleftrightarrow> ret' = ZOK \<or> ret' = ZNODEEXISTS" by auto
        from zoo_create_law [OF doc c] el ok True show ?thesis
          by (cases "ret' = ZOK") (auto simp: only_added_def)
      qed
    next
      case False
      with no show ?thesis by (simp add: only_added_refl)
    qed
    have "path \<in> ancestors path" by (simp add: ancestors_def)
    with up last only_added_trans [of "ancestors path" "node w" "node w1" "{path}" "node w'"] have
      "only_added (ancestors path) (node w) (node w')" by blast
    moreover have "ok \<longrightarrow> (\<forall>q\<in>ancestors path. node w' q \<noteq> None)"
      using up last only_added_Some [of "{path}" "node w1" "node w'"] by blast
    ultimately show ?thesis by blast
  qed
qed

text \<open>
  \<open>registerService\<close>: the registry's node path exists with all its parents, and the instance node
  with some data.
\<close>

lemma createNode_spec:
  assumes "zk_documented L node" and "createNode L registry path data e w = (True, w')"
  shows "node w' = (if node w path = None then (node w)(path \<mapsto> data) else node w) \<and> node w' path \<noteq> None"
proof -
  obtain h ret where h: "zk_handle registry = Some h" and c: "zoo_create L h path data e w = (ret, w')"
    and ret: "ret = ZOK \<or> ret = ZNODEEXISTS"
    using assms(2) by (auto simp: createNode_def split: option.splits prod.splits if_splits)
  from zoo_create_law [OF assms(1) c] ret show ?thesis by (auto simp: fun_upd_idem)
qed

lemma globalWatcher_handle: "zk_handle (fold (\<lambda>(type, state). globalWatcher type state) evs registry) = zk_handle registry"
  by (induction evs arbitrary: registry) (auto simp: globalWatcher_def)

lemma deliver_keeps:
  "zk_documented L node \<Longrightarrow> deliver L registry w = (registry', w') \<Longrightarrow>
   node w' = node w \<and> zk_handle registry' = zk_handle registry"
  using zoo_events_law [of L node]
  by (auto simp: deliver_def globalWatcher_handle split: option.splits prod.splits) (metis snd_conv)

lemma registerService_spec:
  assumes doc: "zk_documented L node"
    and reg: "Registry_registerService L registry name address w = (True, registry', w')"
  defines "inst \<equiv> service_path name @ [slash] @ address"
  shows "\<exists>t. only_added (ancestors (service_path name)) (node w) t
     \<and> (\<forall>p\<in>ancestors (service_path name). t p \<noteq> None)
     \<and> node w' = (if t inst = None then t(inst \<mapsto> address) else t)"
proof -
  obtain r1 w1 where d: "deliver L registry w = (r1, w1)" by fastforce
  obtain w2 where e: "ensurePath L r1 (service_path name) w1 = (True, w2)"
    and c: "createNode L r1 inst address True w2 = (True, w')"
    using reg d by (auto simp: Registry_registerService_def inst_def Let_def split: if_splits prod.splits bool.splits)
  have "service_path name \<noteq> []" by (simp add: service_path_def)
  with ensurePath_spec [OF doc e] deliver_keeps [OF doc d] createNode_spec [OF doc c] show ?thesis
    by (intro exI [of _ "node w2"]) simp
qed

section \<open>A concrete ensemble\<close>

text \<open>One session, always connected; a node is created if its parent, when it has one, exists.\<close>

definition parent_exists :: "(bytes \<times> bytes) list \<Rightarrow> bytes \<Rightarrow> bool" where
  "parent_exists t path = (case find_last_of slash path of
     None \<Rightarrow> True | Some pos \<Rightarrow> pos = 0 \<or> map_of t (take pos path) \<noteq> None)"

definition sample_zk :: "(bytes \<times> bytes) list zk_lib" where
  "sample_zk = \<lparr>
     zookeeper_init = (\<lambda>hosts w. (Some 0, w)),
     zoo_events = (\<lambda>h w. ([(ZOO_SESSION_EVENT, ZOO_CONNECTED_STATE)], w)),
     zoo_state = (\<lambda>h w. (ZOO_CONNECTED_STATE, w)),
     zoo_exists = (\<lambda>h p w. (if map_of w p \<noteq> None then ZOK else ZNONODE, w)),
     zoo_create = (\<lambda>h p d e w. if map_of w p \<noteq> None then (ZNODEEXISTS, w)
        else if \<not> parent_exists w p then (ZNONODE, w) else (ZOK, (p, d) # w)),
     zoo_get_children = (\<lambda>h p w. ((ZOK, [drop (length p + 1) q. (q, d) \<leftarrow> w,
        take (length p + 1) q = p @ [slash] \<and> slash \<notin> set (drop (length p + 1) q)]), w)),
     zoo_get = (\<lambda>h p n w. (case map_of w p of None \<Rightarrow> (ZNONODE, []) | Some d \<Rightarrow> (ZOK, take n d), w)),
     zookeeper_close = (\<lambda>h w. w)\<rparr>"

lemma sample_zk_documented: "zk_documented sample_zk map_of"
  unfolding zk_documented_def by (auto simp: sample_zk_def fun_eq_iff)

section \<open>Properties\<close>

text \<open>
  C36. \<open>ensurePath\<close> terminates for every path; it never changes or removes an existing node and
  adds none but the path and the prefixes of it that end before a slash; and when it returns
  true for a path that is not empty, all of these exist.
\<close>

theorem ensurePath_creates_parents:
  assumes "zk_documented L node" and "ensurePath L registry path w = (ok, w')"
  shows "(\<forall>p. node w p \<noteq> None \<longrightarrow> node w' p = node w p)
     \<and> (\<forall>p. node w' p \<noteq> node w p \<longrightarrow> p \<in> ancestors path \<and> node w' p = Some [])
     \<and> (ok \<and> path \<noteq> [] \<longrightarrow> node w' path \<noteq> None
        \<and> (\<forall>i. 0 < i \<and> i < length path \<and> path ! i = slash \<longrightarrow> node w' (take i path) \<noteq> None))"
proof -
  from ensurePath_spec [OF assms] have only: "only_added (ancestors path) (node w) (node w')"
    and all: "ok \<longrightarrow> path \<noteq> [] \<longrightarrow> (\<forall>p\<in>ancestors path. node w' p \<noteq> None)" by simp_all
  have anc: "path \<in> ancestors path" "0 < i \<and> i < length path \<and> path ! i = slash \<Longrightarrow> take i path \<in> ancestors path" for i
    by (auto simp: ancestors_def)
  show ?thesis
  proof (intro conjI allI impI)
    show "node w p \<noteq> None \<Longrightarrow> node w' p = node w p" for p using only by (auto simp: only_added_def)
    show "node w' p \<noteq> node w p \<Longrightarrow> p \<in> ancestors path" "node w' p \<noteq> node w p \<Longrightarrow> node w' p = Some []" for p
      using only by (auto simp: only_added_def)
  qed (use all anc in auto)
qed

theorem ensurePath_creates_parents_witness:
  "\<exists>w'. ensurePath sample_zk \<lparr>zk_handle = Some 0, is_connected = True\<rparr> (str ''/a/b'') [] = (True, w')
     \<and> map_of w' (str ''/a'') = Some [] \<and> map_of w' (str ''/a/b'') = Some []"
proof -
  let ?r = "\<lparr>zk_handle = Some 0, is_connected = True\<rparr>"
  have e: "ensurePath sample_zk ?r (str ''/a/b'') [] = (True, [(str ''/a/b'', []), (str ''/a'', [])])"
    by code_simp
  from ensurePath_creates_parents [OF sample_zk_documented e] e show ?thesis by simp
qed

end
