(* ===== verification/Load_Balancer.thy ===== *)
theory Load_Balancer
  imports Contracts
begin

text \<open>
  \<open>rpc_src/conn_balancer/load_balancer.h\<close>, \<open>load_balancer.cpp\<close>, \<open>random.h\<close>, \<open>round.h\<close> and
  \<open>weight.h\<close>: the load balancing strategies and the process-wide instance. A strategy object is
  its state; \<open>select\<close> is dispatched on the constructor. \<open>rng k m\<close> is the \<open>k\<close>-th value drawn from
  the generator with the distribution \<open>0 .. m\<close>.
\<close>

datatype load_balancer =
    RandomLoadBalancer nat
  | RoundRobinLoadBalancer u64
  | WeightedRoundRobinLoadBalancer int

definition createRandom :: load_balancer where "createRandom = RandomLoadBalancer 0"

definition createRoundRobin :: load_balancer where "createRoundRobin = RoundRobinLoadBalancer 0"

definition createWeighted :: load_balancer where "createWeighted = WeightedRoundRobinLoadBalancer 0"

section \<open>The strategies\<close>

definition Random_select :: "(nat \<Rightarrow> int \<Rightarrow> int) \<Rightarrow> nat \<Rightarrow> bytes list \<Rightarrow> bytes \<times> nat" where
  "Random_select rng k instances =
     (if instances = [] then ([], k)
      else (instances ! nat (rng k (int (length instances) - 1)), k + 1))"

text \<open>\<open>fetch_add\<close> on a 64-bit counter returns the old value and wraps.\<close>

definition RoundRobin_select :: "u64 \<Rightarrow> bytes list \<Rightarrow> bytes \<times> u64" where
  "RoundRobin_select current_index instances =
     (if instances = [] then ([], current_index)
      else let index = unat current_index mod length instances
           in (instances ! index, current_index + 1))"

text \<open>The loop over the instances, with the weights added up so far.\<close>

fun weighted_pick :: "int \<Rightarrow> int \<Rightarrow> int list \<Rightarrow> bytes list \<Rightarrow> bytes option" where
  "weighted_pick current_index current_weight (w # weights) (x # instances) =
     (let current_weight = current_weight + w
      in if current_index < current_weight then Some x
         else weighted_pick current_index current_weight weights instances)"
| "weighted_pick _ _ _ _ = None"

definition Weighted_select :: "int \<Rightarrow> bytes list \<Rightarrow> bytes \<times> int" where
  "Weighted_select current_index instances =
     (if instances = [] then ([], current_index)
      else let weights = replicate (length instances) 1;
               total_weight = sum_list weights;
               current_index = (current_index + 1) mod total_weight
           in (case weighted_pick current_index 0 weights instances of
                 Some x \<Rightarrow> x | None \<Rightarrow> instances ! 0, current_index))"

definition select :: "(nat \<Rightarrow> int \<Rightarrow> int) \<Rightarrow> load_balancer \<Rightarrow> bytes list \<Rightarrow> bytes \<times> load_balancer" where
  "select rng lb instances =
     (case lb of
        RandomLoadBalancer k \<Rightarrow> map_prod id RandomLoadBalancer (Random_select rng k instances)
      | RoundRobinLoadBalancer c \<Rightarrow> map_prod id RoundRobinLoadBalancer (RoundRobin_select c instances)
      | WeightedRoundRobinLoadBalancer c \<Rightarrow> map_prod id WeightedRoundRobinLoadBalancer (Weighted_select c instances))"

section \<open>The instance\<close>

definition balancer_map :: "(bytes \<times> load_balancer) list" where
  "balancer_map = [(str ''random'', createRandom), (str ''round'', createRoundRobin), (str ''weight'', createWeighted)]"

definition Balancer_getInstance :: "load_balancer option \<Rightarrow> load_balancer" where
  "Balancer_getInstance inst = (case inst of None \<Rightarrow> createRandom | Some lb \<Rightarrow> lb)"

definition initBalancer :: "bytes \<Rightarrow> load_balancer option \<Rightarrow> bool \<times> load_balancer option" where
  "initBalancer type inst =
     (case map_of balancer_map type of
        Some lb \<Rightarrow> (True, Some lb)
      | None \<Rightarrow> (False, Some createRandom))"

text \<open>\<open>selectServer\<close>; no strategy throws, so its \<open>catch\<close> is not reached.\<close>

definition selectServer :: "(nat \<Rightarrow> int \<Rightarrow> int) \<Rightarrow> bytes list \<Rightarrow> load_balancer option \<Rightarrow> bytes \<times> load_balancer option" where
  "selectServer rng servers inst =
     (let lb = (case inst of None \<Rightarrow> createRandom | Some lb \<Rightarrow> lb)
      in if servers = [] then ([], Some lb)
         else (case select rng lb servers of (x, lb) \<Rightarrow> (x, Some lb)))"

section \<open>The contracts\<close>

definition draws_in_range :: "(nat \<Rightarrow> int \<Rightarrow> int) \<Rightarrow> bool" where
  "draws_in_range rng \<longleftrightarrow> (\<forall>k m. 0 \<le> m \<longrightarrow> 0 \<le> rng k m \<and> rng k m \<le> m)"

lemma weighted_pick_ones:
  "cw \<le> ci \<Longrightarrow> weighted_pick ci cw (replicate (length xs) 1) xs
     = (if nat (ci - cw) < length xs then Some (xs ! nat (ci - cw)) else None)"
proof (induction xs arbitrary: cw)
  case (Cons x xs)
  show ?case
  proof (cases "ci = cw")
    case False
    with Cons.prems have "nat (ci - cw) = Suc (nat (ci - (cw + 1)))" by simp
    with Cons.IH [of "cw + 1"] Cons.prems False show ?thesis by simp
  qed simp
qed simp

lemma Weighted_select_eq:
  assumes "xs \<noteq> []" and "0 \<le> ci"
  shows "Weighted_select ci xs = (xs ! (nat (ci + 1) mod length xs), int (nat (ci + 1) mod length xs))"
proof -
  let ?n = "int (length xs)"
  have tot: "sum_list (replicate (length xs) 1) = ?n" by (simp add: sum_list_replicate)
  have m: "nat ((ci + 1) mod ?n) = nat (ci + 1) mod length xs" "0 \<le> (ci + 1) mod ?n"
    using assms by (simp_all add: nat_mod_distrib)
  have lt: "nat (ci + 1) mod length xs < length xs" using assms(1) by simp
  have "weighted_pick ((ci + 1) mod ?n) 0 (replicate (length xs) 1) xs = Some (xs ! (nat (ci + 1) mod length xs))"
    using weighted_pick_ones [OF m(2), of xs] m(1) lt by simp
  with assms m show ?thesis
    unfolding Weighted_select_def tot Let_def by (metis int_nat_eq option.simps(5))
qed

interpretation random_lb: balancer "Random_select rng" "\<lambda>_. draws_in_range rng" for rng
proof
  fix k and xs :: "bytes list"
  assume "draws_in_range rng" and "xs \<noteq> []"
  then have "nat (rng k (int (length xs) - 1)) < length xs"
    unfolding draws_in_range_def by (cases xs) (auto simp: nat_less_iff dest!: spec [of _ k] spec [of _ "int (length xs) - 1"])
  with \<open>xs \<noteq> []\<close> show "fst (Random_select rng k xs) \<in> set xs" by (simp add: Random_select_def)
qed (simp_all add: Random_select_def)

interpretation round_robin: cyclic_balancer RoundRobin_select "\<lambda>_. True" "\<lambda>c n. unat c mod n" "\<lambda>c m. unat c + m < 2 ^ 64"
proof
  fix c :: u64 and xs :: "bytes list" and m
  assume "unat c + Suc m < 2 ^ 64"
  then have "unat (c + 1) = unat c + 1" by (simp add: unat_word_ariths)
  then show "xs \<noteq> [] \<Longrightarrow> unat (snd (RoundRobin_select c xs)) mod length xs = Suc (unat c mod length xs) mod length xs"
    and "xs \<noteq> [] \<Longrightarrow> unat (snd (RoundRobin_select c xs)) + m < 2 ^ 64"
    using \<open>unat c + Suc m < 2 ^ 64\<close> by (simp_all add: RoundRobin_select_def Let_def mod_Suc_eq)
qed (simp_all add: RoundRobin_select_def Let_def)

interpretation weighted: cyclic_balancer Weighted_select "\<lambda>ci. 0 \<le> ci" "\<lambda>ci n. nat (ci + 1) mod n" "\<lambda>_ _. True"
proof
  fix ci :: int and xs :: "bytes list"
  show "0 \<le> ci \<Longrightarrow> 0 \<le> snd (Weighted_select ci xs)"
    by (cases "xs = []") (simp_all add: Weighted_select_eq, simp add: Weighted_select_def)
  assume "0 \<le> ci" and "xs \<noteq> []"
  then show "nat (snd (Weighted_select ci xs) + 1) mod length xs = Suc (nat (ci + 1) mod length xs) mod length xs"
    by (simp add: Weighted_select_eq nat_add_distrib)
qed (simp_all add: Weighted_select_eq, simp add: Weighted_select_def)

definition lb_inv :: "(nat \<Rightarrow> int \<Rightarrow> int) \<Rightarrow> load_balancer \<Rightarrow> bool" where
  "lb_inv rng lb \<longleftrightarrow> draws_in_range rng \<and> (case lb of WeightedRoundRobinLoadBalancer ci \<Rightarrow> 0 \<le> ci | _ \<Rightarrow> True)"

interpretation any_lb: balancer "select rng" "lb_inv rng" for rng
proof
  fix lb xs
  show "lb_inv rng lb \<Longrightarrow> xs \<noteq> [] \<Longrightarrow> fst (select rng lb xs) \<in> set xs"
    using random_lb.select_mem round_robin.select_mem weighted.select_mem
    by (cases lb) (auto simp: select_def lb_inv_def)
  show "lb_inv rng lb \<Longrightarrow> lb_inv rng (snd (select rng lb xs))"
    using weighted.select_inv by (cases lb) (auto simp: select_def lb_inv_def)
  show "select rng lb [] = ([], lb)"
    by (cases lb) (simp_all add: select_def Random_select_def RoundRobin_select_def Weighted_select_def)
qed

section \<open>Properties\<close>

lemma selectServer_law:
  assumes "draws_in_range rng" and "\<forall>lb. inst = Some lb \<longrightarrow> lb_inv rng lb" and "[] \<notin> set servers"
  shows "case selectServer rng servers inst of (server, inst') \<Rightarrow>
     (servers \<noteq> [] \<longrightarrow> server \<in> set servers) \<and> (server = [] \<longleftrightarrow> servers = [])
     \<and> (\<exists>lb. inst' = Some lb \<and> lb_inv rng lb)"
proof -
  let ?lb = "case inst of None \<Rightarrow> createRandom | Some lb \<Rightarrow> lb"
  have inv: "lb_inv rng ?lb"
    using assms(1,2) by (auto simp: lb_inv_def createRandom_def split: option.split)
  with any_lb.select_mem [of rng ?lb servers] any_lb.select_inv [of rng ?lb servers] assms(3)
  show ?thesis by (auto simp: selectServer_def Let_def split: prod.splits)
qed

text \<open>
  \<open>selectServer\<close> answers with one of the servers given, whatever the strategy and however
  often it has been called with other lists before; with the empty string exactly when there is
  no server (addresses are not empty); and the instance exists from then on.
\<close>

theorem selectServer_member:
  assumes "draws_in_range rng" and "\<forall>lb. inst = Some lb \<longrightarrow> lb_inv rng lb" and "[] \<notin> set servers"
  shows "case selectServer rng servers inst of (server, inst') \<Rightarrow>
     (servers \<noteq> [] \<longrightarrow> server \<in> set servers) \<and> (server = [] \<longleftrightarrow> servers = [])
     \<and> (\<exists>lb. inst' = Some lb \<and> lb_inv rng lb)"
  using selectServer_law [OF assms] .

theorem selectServer_member_witness:
  "fst (selectServer (\<lambda>k m. m) [str ''a:1'', str ''b:2''] (Some createWeighted)) \<in> {str ''a:1'', str ''b:2''}"
  using selectServer_member [of "\<lambda>k m. m" "Some createWeighted" "[str ''a:1'', str ''b:2'']"]
  by (auto simp: draws_in_range_def lb_inv_def createWeighted_def case_prod_unfold)

text \<open>
  C32. Round robin is fair: unless its 64-bit counter wraps, as many calls as there are servers
  return each server exactly once, in cyclic order from where the counter stands. The weighted
  strategy, whose weights are all 1, does the same starting one position later, so weights have
  no effect.
\<close>

theorem round_robin_fair:
  assumes "servers \<noteq> []" and "unat c + length servers < 2 ^ 64" and "0 \<le> ci"
  shows "picks RoundRobin_select c (replicate (length servers) servers) = rotate (unat c mod length servers) servers
     \<and> picks Weighted_select ci (replicate (length servers) servers) = rotate (nat (ci + 1) mod length servers) servers"
  using round_robin.picks_rotate [of servers c] weighted.picks_rotate [of ci servers] assms by simp

theorem round_robin_fair_witness:
  "picks RoundRobin_select 0 (replicate 3 [str ''a'', str ''b'', str ''c'']) = [str ''a'', str ''b'', str ''c'']
   \<and> picks Weighted_select 0 (replicate 3 [str ''a'', str ''b'', str ''c'']) = [str ''b'', str ''c'', str ''a'']"
proof -
  let ?xs = "[str ''a'', str ''b'', str ''c'']"
  have l: "length ?xs = 3" by simp
  show ?thesis using round_robin_fair [of ?xs 0 0] unfolding l by simp
qed

text \<open>
  \<open>initBalancer\<close> knows \<open>random\<close>, \<open>round\<close> and \<open>weight\<close>; for any other name it returns false and
  installs the random strategy, so that \<open>selectServer\<close> always has a strategy.
\<close>

theorem initBalancer_types:
  "case initBalancer type inst of (ok, inst') \<Rightarrow>
     (ok \<longleftrightarrow> type \<in> {str ''random'', str ''round'', str ''weight''})
     \<and> inst' = Some (if type = str ''round'' then createRoundRobin
                     else if type = str ''weight'' then createWeighted else createRandom)
     \<and> (draws_in_range rng \<longrightarrow> lb_inv rng (Balancer_getInstance inst'))"
proof -
  have "str ''random'' \<noteq> str ''round''" "str ''random'' \<noteq> str ''weight''" "str ''round'' \<noteq> str ''weight''"
    by (simp_all add: str_def)
  then show ?thesis
    by (auto simp: initBalancer_def balancer_map_def Balancer_getInstance_def lb_inv_def
        createRandom_def createRoundRobin_def createWeighted_def)
qed

theorem initBalancer_types_witness:
  "lb_inv (\<lambda>k m. 0) (Balancer_getInstance (snd (initBalancer (str ''fastest'') None)))
   \<and> \<not> fst (initBalancer (str ''fastest'') None)"
  using initBalancer_types [where rng = "\<lambda>k m. 0" and type = "str ''fastest''" and inst = None]
  by (simp add: draws_in_range_def str_def case_prod_unfold Balancer_getInstance_def lb_inv_def createRandom_def)

end
