(* ===== verification/Registry_Config.thy ===== *)
theory Registry_Config
  imports Json_Interface
begin

text \<open>
  \<open>rpc_src/load_config/registry_config.h\<close> and \<open>registry_config.cpp\<close>: the addresses a server
  registers. The text of the configuration file is an argument, \<open>None\<close> when it cannot be opened.
  The function catches nothing, so the exceptions of the JSON library leave it, with the fields
  set before them kept.
\<close>

record registry_info =
  node_address :: bytes
  node_port :: u16

record service_registry_config =
  registry_nodes :: "registry_info list"
  sc_service_name :: bytes
  sc_service_version :: bytes

definition new_registry_config :: service_registry_config where
  "new_registry_config = \<lparr>registry_nodes = [], sc_service_name = [], sc_service_version = []\<rparr>"

text \<open>The loop over the nodes: \<open>Inr None\<close> is its \<open>return false\<close>.\<close>

fun read_nodes :: "'j json_ops \<Rightarrow> 'j list \<Rightarrow> registry_info list \<Rightarrow> fault + registry_info list option" where
  "read_nodes J [] acc = Inr (Some acc)"
| "read_nodes J (node # nodes) acc =
     (if \<not> json_contains J node (str ''address'') \<or> \<not> json_contains J node (str ''port'') then Inr None
      else case json_get_str J (json_at J node (str ''address'')) of
        None \<Rightarrow> Inl Json_exception
      | Some a \<Rightarrow>
          (case json_get_u16 J (json_at J node (str ''port'')) of
             None \<Rightarrow> Inl Json_exception
           | Some p \<Rightarrow> read_nodes J nodes (acc @ [\<lparr>node_address = a, node_port = p\<rparr>])))"

definition InitRegistryConfig :: "'j json_ops \<Rightarrow> bytes option \<Rightarrow> service_registry_config
    \<Rightarrow> (fault + bool) \<times> service_registry_config" where
  "InitRegistryConfig J file c =
     (case file of None \<Rightarrow> (Inr False, c)
      | Some text \<Rightarrow>
     (case json_parse J text of None \<Rightarrow> (Inl Json_exception, c)
      | Some config \<Rightarrow>
     (case json_value_str J config (str ''service_name'') [] of None \<Rightarrow> (Inl Json_exception, c)
      | Some name \<Rightarrow>
          if name = [] then (Inr False, c)
          else let c = c\<lparr>sc_service_name := name\<rparr> in
     (case json_value_str J config (str ''service_version'') [] of None \<Rightarrow> (Inl Json_exception, c)
      | Some version \<Rightarrow>
          if version = [] then (Inr False, c)
          else let c = c\<lparr>sc_service_version := version\<rparr> in
            if \<not> json_contains J config (str ''registry_nodes'') then (Inr False, c)
            else (case read_nodes J (json_elements J (json_at J config (str ''registry_nodes''))) [] of
                    Inl e \<Rightarrow> (Inl e, c)
                  | Inr None \<Rightarrow> (Inr False, c)
                  | Inr (Some nodes) \<Rightarrow> (Inr True, c\<lparr>registry_nodes := nodes\<rparr>))))))"

text \<open>On success there is a name and a version; otherwise the nodes stay.\<close>

lemma InitRegistryConfig_result:
  assumes "InitRegistryConfig J file c = (r, c')"
  shows "r = Inr True \<Longrightarrow> sc_service_name c' \<noteq> [] \<and> sc_service_version c' \<noteq> []"
    and "r \<noteq> Inr True \<Longrightarrow> registry_nodes c' = registry_nodes c"
  using assms by (auto simp: InitRegistryConfig_def Let_def split: option.splits if_splits sum.splits)

end
