(* ===== verification/Zk_Conn_Handler.thy ===== *)
theory Zk_Conn_Handler
  imports Service_Registry Load_Balancer Registry_Config
begin

text \<open>
  \<open>rpc_src/conn_balancer/zk_conn_handler.h\<close> and \<open>zk_conn_handler.cpp\<close>: the process-wide ZooKeeper
  handler, with service discovery for the client and service registration for the server. The
  handler's fields are a record; \<open>cleanup_done\<close> is the function-local static flag of \<open>cleanup\<close>,
  which lives as long as the process. \<open>global_watcher\<close> has no effect.
\<close>

record zk_handler =
  zk_host :: bytes
  zk_port :: int
  zk_namespace :: bytes
  retry_interval :: int
  zk_running :: bool
  zk_client :: "nat option"
  registry_ptr :: "service_registry option"
  servers :: "bytes list"
  cleanup_done :: bool

text \<open>The constructor leaves \<open>zk_port_\<close> and \<open>retry_interval_\<close> as they are in memory.\<close>

definition new_handler :: "int \<Rightarrow> int \<Rightarrow> zk_handler" where
  "new_handler port interval = \<lparr>zk_host = [], zk_port = port, zk_namespace = [], retry_interval = interval,
     zk_running = False, zk_client = None, registry_ptr = None, servers = [], cleanup_done = False\<rparr>"

definition setZkNamespace :: "bytes \<Rightarrow> zk_handler \<Rightarrow> zk_handler" where
  "setZkNamespace ns s = s\<lparr>zk_namespace := ns\<rparr>"

definition setZkRetryInterval :: "int \<Rightarrow> zk_handler \<Rightarrow> zk_handler" where
  "setZkRetryInterval seconds s = s\<lparr>retry_interval := seconds\<rparr>"

definition setZkHost :: "bytes \<Rightarrow> zk_handler \<Rightarrow> zk_handler" where
  "setZkHost host s = (if host = [] then s\<lparr>zk_host := str ''localhost''\<rparr> else s\<lparr>zk_host := host\<rparr>)"

definition setZkPort :: "int \<Rightarrow> zk_handler \<Rightarrow> zk_handler" where
  "setZkPort port s = s\<lparr>zk_port := (if port > 0 \<and> port < 65536 then port else 2181)\<rparr>"

definition conn_string :: "zk_handler \<Rightarrow> bytes" where
  "conn_string s = zk_host s @ str '':'' @ to_string (zk_port s)"

section \<open>The connection\<close>

definition cleanup :: "'z zk_lib \<Rightarrow> zk_handler \<Rightarrow> 'z \<Rightarrow> zk_handler \<times> 'z" where
  "cleanup L s w =
     (if cleanup_done s then (s, w)
      else let s = s\<lparr>cleanup_done := True\<rparr>;
               w = (case registry_ptr s of None \<Rightarrow> w | Some r \<Rightarrow> snd (ServiceRegistry_destroy L r w));
               s = s\<lparr>registry_ptr := None\<rparr>
           in case zk_client s of
                None \<Rightarrow> (s\<lparr>zk_running := False\<rparr>, w)
              | Some h \<Rightarrow> (s\<lparr>zk_client := None, zk_running := False\<rparr>, zookeeper_close L h w))"

definition ZkConnHandler_destroy :: "'z zk_lib \<Rightarrow> zk_handler \<Rightarrow> 'z \<Rightarrow> zk_handler \<times> 'z" where
  "ZkConnHandler_destroy L s w = cleanup L s w"

definition hasServiceRegistry :: "zk_handler \<Rightarrow> bool" where
  "hasServiceRegistry s \<longleftrightarrow> registry_ptr s \<noteq> None"

text \<open>
  The loop of \<open>ensureZkConnection\<close> with the rounds left; the third condition of its error branch
  needs more rounds than there are and is never true. An unknown state is probed with a call.
\<close>

fun await_state :: "'z zk_lib \<Rightarrow> nat \<Rightarrow> nat \<Rightarrow> zk_handler \<Rightarrow> 'z \<Rightarrow> bool \<times> zk_handler \<times> 'z" where
  "await_state L h 0 s w = (case cleanup L s w of (s, w) \<Rightarrow> (False, s, w))"
| "await_state L h (Suc n) s w =
     (case zoo_state L h w of (state, w) \<Rightarrow>
        let w = (case state of ZOO_other_state _ \<Rightarrow> snd (zoo_exists L h (str ''/'') w) | _ \<Rightarrow> w) in
        if state = ZOO_CONNECTED_STATE then (True, s, w)
        else if state = ZOO_EXPIRED_SESSION_STATE \<or> state = ZOO_AUTH_FAILED_STATE
        then (case cleanup L s w of (s, w) \<Rightarrow> (False, s, w))
        else await_state L h n s w)"

definition max_retries :: nat where "max_retries = 3"

definition ensureZkConnection :: "'z zk_lib \<Rightarrow> zk_handler \<Rightarrow> 'z \<Rightarrow> bool \<times> zk_handler \<times> 'z" where
  "ensureZkConnection L s w =
     (case zk_client s of
        Some h \<Rightarrow> await_state L h max_retries s w
      | None \<Rightarrow>
          (case zookeeper_init L (conn_string s) w of
             (None, w) \<Rightarrow> (False, s, w)
           | (Some h, w) \<Rightarrow> await_state L h max_retries (s\<lparr>zk_client := Some h\<rparr>) w))"

section \<open>Discovery\<close>

definition BUFFER_SIZE :: nat where "BUFFER_SIZE = 1024"

fun read_children :: "'z zk_lib \<Rightarrow> nat \<Rightarrow> bytes \<Rightarrow> bytes list \<Rightarrow> 'z \<Rightarrow> bytes list \<times> 'z" where
  "read_children L h ns [] w = ([], w)"
| "read_children L h ns (child # children) w =
     (case zoo_get L h (ns @ [slash] @ child) BUFFER_SIZE w of ((rc, data), w) \<Rightarrow>
        (case read_children L h ns children w of (rest, w) \<Rightarrow>
           (if rc = ZOK \<and> length data > 0 then data # rest else rest, w)))"

definition getAllServers :: "'z zk_lib \<Rightarrow> bytes \<Rightarrow> zk_handler \<Rightarrow> 'z \<Rightarrow> bytes list \<times> zk_handler \<times> 'z" where
  "getAllServers L ns s w =
     (case ensureZkConnection L s w of
        (False, s, w) \<Rightarrow> ([], s, w)
      | (True, s, w) \<Rightarrow>
          (case zk_client s of
             None \<Rightarrow> ([], s, w)
           | Some h \<Rightarrow>
               (case zoo_get_children L h ns w of ((rc, children), w) \<Rightarrow>
                  if rc \<noteq> ZOK then ([], s, w)
                  else (case read_children L h ns children w of (found, w) \<Rightarrow> (found, s, w)))))"

definition updateServersFromZk :: "'z zk_lib \<Rightarrow> bytes \<Rightarrow> zk_handler \<Rightarrow> 'z \<Rightarrow> zk_handler \<times> 'z" where
  "updateServersFromZk L ns s w =
     (case getAllServers L ns s w of (new_servers, s, w) \<Rightarrow> (s\<lparr>servers := new_servers\<rparr>, w))"

definition getServer :: "'z zk_lib \<Rightarrow> (nat \<Rightarrow> int \<Rightarrow> int) \<Rightarrow> bytes \<Rightarrow> zk_handler \<Rightarrow> load_balancer option \<Rightarrow> 'z
    \<Rightarrow> bytes \<times> zk_handler \<times> load_balancer option \<times> 'z" where
  "getServer L rng ns s lb w =
     (case updateServersFromZk L ns s w of (s, w) \<Rightarrow>
        if servers s = [] then ([], s, lb, w)
        else (case selectServer rng (servers s) lb of (server, lb) \<Rightarrow> (server, s, lb, w)))"

section \<open>Registration\<close>

definition createServiceRegistryIfNeeded :: "'z zk_lib \<Rightarrow> zk_handler \<Rightarrow> 'z \<Rightarrow> bool \<times> zk_handler \<times> 'z" where
  "createServiceRegistryIfNeeded L s w =
     (case ServiceRegistry L (conn_string s) w of
        (Inl e, w) \<Rightarrow> (False, s\<lparr>registry_ptr := None\<rparr>, w)
      | (Inr r, w) \<Rightarrow>
          (case deliver L r w of (r, w) \<Rightarrow>
             if \<not> isConnected r
             then (False, s\<lparr>registry_ptr := None\<rparr>, snd (ServiceRegistry_destroy L r w))
             else (True, s\<lparr>registry_ptr := Some r\<rparr>, w)))"

definition getOrCreateServiceRegistry :: "'z zk_lib \<Rightarrow> zk_handler \<Rightarrow> 'z \<Rightarrow> service_registry option \<times> zk_handler \<times> 'z" where
  "getOrCreateServiceRegistry L s w =
     (case registry_ptr s of
        Some r \<Rightarrow> (Some r, s, w)
      | None \<Rightarrow> (case createServiceRegistryIfNeeded L s w of (ok, s, w) \<Rightarrow>
                   if \<not> ok then (None, s, w) else (registry_ptr s, s, w)))"

definition Handler_registerService :: "'z zk_lib \<Rightarrow> bytes \<Rightarrow> bytes \<Rightarrow> zk_handler \<Rightarrow> 'z \<Rightarrow> bool \<times> zk_handler \<times> 'z" where
  "Handler_registerService L name address s w =
     (case getOrCreateServiceRegistry L s w of
        (None, s, w) \<Rightarrow> (False, s, w)
      | (Some r, s, w) \<Rightarrow>
          (case Registry_registerService L r name address w of (ok, r, w) \<Rightarrow> (ok, s\<lparr>registry_ptr := Some r\<rparr>, w)))"

definition service_address :: "registry_info \<Rightarrow> bytes" where
  "service_address node = node_address node @ str '':'' @ to_string (uint (node_port node))"

fun register_nodes :: "'z zk_lib \<Rightarrow> bytes \<Rightarrow> registry_info list \<Rightarrow> bool \<Rightarrow> service_registry \<Rightarrow> 'z
    \<Rightarrow> bool \<times> service_registry \<times> 'z" where
  "register_nodes L name [] all_success r w = (all_success, r, w)"
| "register_nodes L name (node # nodes) all_success r w =
     (case Registry_registerService L r name (service_address node) w of (ok, r, w) \<Rightarrow>
        register_nodes L name nodes (all_success \<and> ok) r w)"

definition registerServicesFromConfig :: "'z zk_lib \<Rightarrow> service_registry_config option \<Rightarrow> zk_handler \<Rightarrow> 'z
    \<Rightarrow> bool \<times> zk_handler \<times> 'z" where
  "registerServicesFromConfig L config s w =
     (case config of
        None \<Rightarrow> (True, s, w)
      | Some c \<Rightarrow>
          if length (registry_nodes c) = 0 then (True, s, w)
          else case getOrCreateServiceRegistry L s w of
            (None, s, w) \<Rightarrow> (False, s, w)
          | (Some r, s, w) \<Rightarrow>
              (case register_nodes L (sc_service_name c) (registry_nodes c) True r w of (all_success, r, w) \<Rightarrow>
                 (all_success, s\<lparr>registry_ptr := Some r\<rparr>, w)))"

section \<open>Initialisation from the configuration\<close>

text \<open>
  The settings are applied one after the other; an exception of the JSON library ends the inner
  \<open>try\<close> with those before it applied. \<open>None\<close> is that exception.
\<close>

definition apply_settings :: "'j json_ops \<Rightarrow> 'j \<Rightarrow> zk_handler \<Rightarrow> bool \<times> zk_handler" where
  "apply_settings J config s =
     (case json_value_str J config (str ''zk_host'') (str ''localhost'') of None \<Rightarrow> (False, s)
      | Some host \<Rightarrow> let s = setZkHost host s in
     (case json_value_int J config (str ''zk_port'') 2181 of None \<Rightarrow> (False, s)
      | Some p \<Rightarrow> let s = setZkPort (sint p) s in
     (case json_value_str J config (str ''zk_namespace'') (str ''/myrpc'') of None \<Rightarrow> (False, s)
      | Some ns \<Rightarrow> let s = setZkNamespace ns s in
     (case json_value_int J config (str ''zk_retry_interval'') 5 of None \<Rightarrow> (False, s)
      | Some i \<Rightarrow> (True, setZkRetryInterval (sint i) s)))))"

definition initZkConnHandler :: "'z zk_lib \<Rightarrow> 'j json_ops \<Rightarrow> 'j \<Rightarrow> zk_handler \<Rightarrow> 'z \<Rightarrow> bool \<times> zk_handler \<times> 'z" where
  "initZkConnHandler L J config s w =
     (if json_empty J config then (False, s, w)
      else case apply_settings J config s of
        (False, s) \<Rightarrow> (case cleanup L s w of (s, w) \<Rightarrow> (False, s, w))
      | (True, s) \<Rightarrow>
          (case ensureZkConnection L s w of (connected, s, w) \<Rightarrow>
             if zk_client s = None then (False, s, w)
             else if \<not> connected then (False, s, w)
             else (True, s, w)))"

section \<open>What the calls leave unchanged\<close>

lemma cleanup_again: "cleanup_done s \<Longrightarrow> cleanup L s w = (s, w)"
  by (simp add: cleanup_def)

text \<open>A handle that reports an unrecoverable state whenever it is asked.\<close>

definition handle_dead :: "'z zk_lib \<Rightarrow> nat \<Rightarrow> bool" where
  "handle_dead L h \<longleftrightarrow> (\<forall>w. fst (zoo_state L h w) \<in> {ZOO_EXPIRED_SESSION_STATE, ZOO_AUTH_FAILED_STATE})"

lemma await_state_dead:
  assumes "handle_dead L h" and "cleanup_done s" and "0 < n"
  shows "\<exists>w'. await_state L h n s w = (False, s, w')"
proof -
  obtain st w1 where st: "zoo_state L h w = (st, w1)" by fastforce
  with assms(1) have "st = ZOO_EXPIRED_SESSION_STATE \<or> st = ZOO_AUTH_FAILED_STATE"
    by (auto simp: handle_dead_def dest!: spec [of _ w])
  with st assms(2,3) show ?thesis by (cases n) (auto simp: Let_def cleanup_again)
qed

definition stuck :: "'z zk_lib \<Rightarrow> nat \<Rightarrow> zk_handler \<Rightarrow> bool" where
  "stuck L h s \<longleftrightarrow> cleanup_done s \<and> zk_client s = Some h \<and> handle_dead L h"

lemma ensure_stuck: "stuck L h s \<Longrightarrow> \<exists>w'. ensureZkConnection L s w = (False, s, w')"
  using await_state_dead [of L h s max_retries w]
  by (simp add: stuck_def ensureZkConnection_def max_retries_def)

lemma getServer_stuck:
  assumes "stuck L h s"
  shows "\<exists>w'. getServer L rng ns s lb w = ([], s\<lparr>servers := []\<rparr>, lb, w')"
proof -
  from ensure_stuck [OF assms] obtain w' where "ensureZkConnection L s w = (False, s, w')" by blast
  then show ?thesis by (simp add: getServer_def updateServersFromZk_def getAllServers_def)
qed

lemma stuck_servers: "stuck L h (s\<lparr>servers := xs\<rparr>) = stuck L h s"
  by (simp add: stuck_def)

text \<open>Asking for a server again and again.\<close>

fun getServer_calls :: "'z zk_lib \<Rightarrow> (nat \<Rightarrow> int \<Rightarrow> int) \<Rightarrow> bytes \<Rightarrow> nat \<Rightarrow> zk_handler \<Rightarrow> load_balancer option \<Rightarrow> 'z
    \<Rightarrow> bytes list" where
  "getServer_calls L rng ns 0 s lb w = []"
| "getServer_calls L rng ns (Suc n) s lb w =
     (case getServer L rng ns s lb w of (x, s, lb, w) \<Rightarrow> x # getServer_calls L rng ns n s lb w)"

section \<open>Reading the tree\<close>

text \<open>
  What the client library documents of its reading calls: they change no node;
  \<open>zoo_get_children\<close> lists the last parts of the paths below a node, \<open>zoo_get\<close> copies the data
  as far as the buffer goes. \<open>zk_available\<close>: the ensemble answers for nodes that exist.
\<close>

definition children_documented :: "'z zk_lib \<Rightarrow> ('z \<Rightarrow> bytes \<Rightarrow> bytes option) \<Rightarrow> bool" where
  "children_documented L node \<longleftrightarrow>
     (\<forall>h p w. case zoo_get_children L h p w of ((rc, names), w') \<Rightarrow> node w' = node w
        \<and> (rc = ZOK \<longrightarrow> (\<forall>n. n \<noteq> [] \<longrightarrow> slash \<notin> set n \<longrightarrow> node w (p @ [slash] @ n) \<noteq> None \<longrightarrow> n \<in> set names)))"

definition get_documented :: "'z zk_lib \<Rightarrow> ('z \<Rightarrow> bytes \<Rightarrow> bytes option) \<Rightarrow> bool" where
  "get_documented L node \<longleftrightarrow>
     (\<forall>h p n w. case zoo_get L h p n w of ((rc, data), w') \<Rightarrow> node w' = node w
        \<and> (rc = ZOK \<longrightarrow> map_option (take n) (node w p) = Some data))"

definition session_documented :: "'z zk_lib \<Rightarrow> ('z \<Rightarrow> bytes \<Rightarrow> bytes option) \<Rightarrow> bool" where
  "session_documented L node \<longleftrightarrow> (\<forall>h w. node (snd (zoo_state L h w)) = node w)
     \<and> (\<forall>hosts w. node (snd (zookeeper_init L hosts w)) = node w)"

definition zk_available :: "'z zk_lib \<Rightarrow> ('z \<Rightarrow> bytes \<Rightarrow> bytes option) \<Rightarrow> bool" where
  "zk_available L node \<longleftrightarrow>
     (\<forall>h p w. node w p \<noteq> None \<longrightarrow> fst (fst (zoo_get_children L h p w)) = ZOK \<and> (\<forall>n. fst (fst (zoo_get L h p n w)) = ZOK))"

lemma await_state_True:
  assumes doc: "zk_documented L node" and sess: "session_documented L node"
  shows "await_state L h n s w = (True, s', w') \<Longrightarrow> node w' = node w \<and> s' = s"
proof (induction n arbitrary: w)
  case 0
  then show ?case by (simp split: prod.splits)
next
  case (Suc n)
  obtain st w1 where st: "zoo_state L h w = (st, w1)" by fastforce
  then have n1: "node w1 = node w" using sess by (metis session_documented_def snd_conv)
  let ?w2 = "case st of ZOO_other_state _ \<Rightarrow> snd (zoo_exists L h (str ''/'') w1) | _ \<Rightarrow> w1"
  obtain rc w3 where x: "zoo_exists L h (str ''/'') w1 = (rc, w3)" by fastforce
  have n2: "node ?w2 = node w" using n1 x zoo_exists_law [OF doc x] by (simp split: session_state.split)
  show ?case
  proof (cases "st = ZOO_CONNECTED_STATE")
    case True
    with Suc.prems st n1 show ?thesis by (simp add: Let_def)
  next
    case False
    with Suc.prems st have "await_state L h n s ?w2 = (True, s', w')"
      by (auto simp: Let_def split: if_splits prod.splits)
    from Suc.IH [OF this] n2 show ?thesis by simp
  qed
qed

lemma ensure_True:
  assumes "zk_documented L node" and "session_documented L node"
    and "ensureZkConnection L s w = (True, s', w')"
  shows "node w' = node w \<and> zk_client s' \<noteq> None"
proof (cases "zk_client s")
  case (Some h)
  with assms(3) await_state_True [OF assms(1,2), of h max_retries s w s' w'] show ?thesis
    by (simp add: ensureZkConnection_def)
next
  case None
  obtain ho w1 where i: "zookeeper_init L (conn_string s) w = (ho, w1)" by fastforce
  with None assms(3) obtain h where h: "ho = Some h" by (cases ho) (auto simp: ensureZkConnection_def)
  have "node w1 = node w" using assms(2) i by (metis session_documented_def snd_conv)
  with None assms(3) i h await_state_True [OF assms(1,2), of h max_retries "s\<lparr>zk_client := Some h\<rparr>" w1 s' w'] show ?thesis
    by (simp add: ensureZkConnection_def)
qed

lemma get_law:
  "get_documented L node \<Longrightarrow> zoo_get L h p n w = ((rc, data), w') \<Longrightarrow>
   node w' = node w \<and> (rc = ZOK \<longrightarrow> map_option (take n) (node w p) = Some data)"
  unfolding get_documented_def by (drule spec [of _ h], drule spec [of _ p], drule spec [of _ n], drule spec [of _ w]) simp

lemma children_law:
  "children_documented L node \<Longrightarrow> zoo_get_children L h p w = ((rc, names), w') \<Longrightarrow> node w' = node w
     \<and> (rc = ZOK \<longrightarrow> (\<forall>n. n \<noteq> [] \<longrightarrow> slash \<notin> set n \<longrightarrow> node w (p @ [slash] @ n) \<noteq> None \<longrightarrow> n \<in> set names))"
  unfolding children_documented_def by (drule spec [of _ h], drule spec [of _ p], drule spec [of _ w]) simp

lemma read_children_finds:
  assumes doc: "get_documented L node" and av: "zk_available L node"
    and data: "node w (ns @ [slash] @ child) = Some data" "data \<noteq> []" "length data \<le> BUFFER_SIZE"
  shows "child \<in> set children \<Longrightarrow> data \<in> set (fst (read_children L h ns children w))"
  using data
proof (induction children arbitrary: w)
  case (Cons c cs)
  obtain rc d w1 where g: "zoo_get L h (ns @ [slash] @ c) BUFFER_SIZE w = ((rc, d), w1)" by (metis surj_pair)
  note gl = get_law [OF doc g]
  show ?case
  proof (cases "c = child")
    case True
    have "rc = ZOK" using av Cons.prems(2) g True unfolding zk_available_def by (metis fst_conv option.distinct(1))
    with gl Cons.prems True have "d = data" by simp
    with g \<open>rc = ZOK\<close> Cons.prems(3) show ?thesis by (simp split: prod.split)
  next
    case False
    with Cons.IH [of w1] Cons.prems gl have "data \<in> set (fst (read_children L h ns cs w1))" by simp
    with g show ?thesis by (auto split: prod.split)
  qed
qed simp

lemma ancestors_shorter: "p \<in> ancestors path \<Longrightarrow> length p \<le> length path"
  by (auto simp: ancestors_def)

section \<open>Properties\<close>

text \<open>
  C35. A session that dies after the first \<open>cleanup\<close> is never replaced: the static flag makes every
  later \<open>cleanup\<close> do nothing, so the handler keeps the dead handle, \<open>ensureZkConnection\<close> fails
  without opening a new session, and every call of \<open>getServer\<close>, for any namespace and however
  often, returns no server.
\<close>

theorem dead_session_never_replaced:
  assumes "cleanup_done s" and "zk_client s = Some h"
    and "\<And>w. fst (zoo_state L h w) \<in> {ZOO_EXPIRED_SESSION_STATE, ZOO_AUTH_FAILED_STATE}"
  shows "(\<exists>w'. ensureZkConnection L s w = (False, s, w'))
     \<and> getServer_calls L rng ns n s lb w = replicate n []"
proof -
  have st: "stuck L h s" using assms by (simp add: stuck_def handle_dead_def)
  have calls: "stuck L h s \<Longrightarrow> getServer_calls L rng ns n s lb w = replicate n []"
  proof (induction n arbitrary: s lb w)
    case (Suc n)
    from getServer_stuck [OF Suc.prems] obtain w' where
      "getServer L rng ns s lb w = ([], s\<lparr>servers := []\<rparr>, lb, w')" by blast
    with Suc show ?case by (simp add: stuck_servers)
  qed simp
  from calls [OF st] ensure_stuck [OF st] show ?thesis by simp
qed

definition expired_zk :: "(bytes \<times> bytes) list zk_lib" where
  "expired_zk = sample_zk\<lparr>zoo_state := \<lambda>h w. (ZOO_EXPIRED_SESSION_STATE, w)\<rparr>"

text \<open>The second failed attempt of a client already leaves the handler in that state.\<close>

definition second_attempt :: zk_handler where
  "second_attempt = fst (snd (ensureZkConnection expired_zk (fst (snd (ensureZkConnection expired_zk (new_handler 2181 5) []))) []))"

theorem dead_session_never_replaced_witness:
  "getServer_calls expired_zk (\<lambda>k m. 0) (str ''/myrpc/s'') 3 second_attempt None [] = replicate 3 []"
proof -
  have s: "cleanup_done second_attempt" "zk_client second_attempt = Some 0"
    by (simp_all add: second_attempt_def ensureZkConnection_def expired_zk_def sample_zk_def new_handler_def
        max_retries_def numeral_3_eq_3 cleanup_def Let_def)
  show ?thesis
    using dead_session_never_replaced [OF s, of expired_zk] by (simp add: expired_zk_def)
qed


lemma map_of_mem_keys: "map_of w k \<noteq> None \<Longrightarrow> \<exists>d. (k, d) \<in> set w"
  by (auto dest: map_of_SomeD)

lemma sample_children:
  assumes "n \<noteq> []" "slash \<notin> set n" "map_of w (p @ [slash] @ n) \<noteq> None"
  shows "n \<in> set [drop (length p + 1) q. (q, d) \<leftarrow> w,
        take (length p + 1) q = p @ [slash] \<and> slash \<notin> set (drop (length p + 1) q)]"
proof -
  from map_of_mem_keys [OF assms(3)] obtain d where "(p @ [slash] @ n, d) \<in> set w" by blast
  with assms(2) show ?thesis by (auto intro!: bexI [of _ "(p @ [slash] @ n, d)"])
qed

lemma sample_zk_reading:
  "session_documented sample_zk map_of" "children_documented sample_zk map_of"
  "get_documented sample_zk map_of" "zk_available sample_zk map_of"
proof -
  show "session_documented sample_zk map_of" "get_documented sample_zk map_of" "zk_available sample_zk map_of"
    by (auto simp: session_documented_def get_documented_def zk_available_def sample_zk_def split: option.split)
  show "children_documented sample_zk map_of"
    unfolding children_documented_def
  proof (intro allI)
    fix h p and w :: "(bytes \<times> bytes) list"
    let ?names = "[drop (length p + 1) q. (q, d) \<leftarrow> w,
        take (length p + 1) q = p @ [slash] \<and> slash \<notin> set (drop (length p + 1) q)]"
    have "zoo_get_children sample_zk h p w = ((ZOK, ?names), w)" by (simp add: sample_zk_def)
    then show "case zoo_get_children sample_zk h p w of ((rc, names), w') \<Rightarrow> map_of w' = map_of w
        \<and> (rc = ZOK \<longrightarrow> (\<forall>n. n \<noteq> [] \<longrightarrow> slash \<notin> set n \<longrightarrow> map_of w (p @ [slash] @ n) \<noteq> None \<longrightarrow> n \<in> set names))"
      using sample_children [of _ w p] by (simp only: case_prod_conv) blast
  qed
qed


end
