(* ===== verification/Load_Config.thy ===== *)
theory Load_Config
  imports Zk_Conn_Handler Thread_Pool
begin

text \<open>
  \<open>rpc_src/load_config/thread_pool_config\<close>, \<open>rpc_client_config\<close> and \<open>rpc_server_config\<close>: the
  configuration of the thread pool, of the client and of the server. The file system is a map
  from names to contents. Assignments to narrower integers truncate, as in the code.
\<close>

section \<open>The thread pool section\<close>

record thread_pool_config =
  tp_max_threads :: u16
  tp_queue_size :: u32
  tp_keep_alive_time :: u32
  tp_core_threads :: u16

definition new_thread_pool_config :: thread_pool_config where
  "new_thread_pool_config = \<lparr>tp_max_threads = 0, tp_queue_size = 0, tp_keep_alive_time = 0, tp_core_threads = 0\<rparr>"

definition InitThreadPoolConfig :: "'j json_ops \<Rightarrow> 'j \<Rightarrow> thread_pool_config \<Rightarrow> bool \<times> thread_pool_config" where
  "InitThreadPoolConfig J cfg c =
     (case json_value_int J cfg (str ''max_threads'') 10 of None \<Rightarrow> (False, c)
      | Some v \<Rightarrow>
          let mt = (ucast v :: u16) in
          if mt = 0 then (False, c)
          else let c = c\<lparr>tp_max_threads := mt\<rparr> in
     (case json_value_u16 J cfg (str ''core_threads'') mt of None \<Rightarrow> (False, c)
      | Some ct \<Rightarrow>
          if ct = 0 \<or> ct > mt then (False, c)
          else let c = c\<lparr>tp_core_threads := ct\<rparr> in
     (case json_value_int J cfg (str ''queue_size'') 100 of None \<Rightarrow> (False, c)
      | Some qs \<Rightarrow>
          if qs = 0 then (False, c)
          else let c = c\<lparr>tp_queue_size := qs\<rparr> in
     (case json_value_int J cfg (str ''keep_alive_time'') 60 of None \<Rightarrow> (False, c)
      | Some keep_alive_time \<Rightarrow>
          if keep_alive_time = 0 then (False, c)
          else (True, c\<lparr>tp_keep_alive_time := keep_alive_time\<rparr>)))))"

section \<open>The client's configuration\<close>

record client_config =
  cc_zk_namespace :: bytes
  cc_zk_host :: bytes
  cc_zk_port :: int
  cc_timeout_ms :: int
  cc_retry_times :: int
  cc_server_port :: int

text \<open>Each value is set before the next is read, and nothing is caught.\<close>

definition InitRpcClientConfig :: "'j json_ops \<Rightarrow> bytes option \<Rightarrow> client_config \<Rightarrow> (fault + bool) \<times> client_config" where
  "InitRpcClientConfig J file c =
     (case file of None \<Rightarrow> (Inr False, c)
      | Some text \<Rightarrow>
     (case json_parse J text of None \<Rightarrow> (Inl Json_exception, c)
      | Some cfg \<Rightarrow>
     (case json_value_str J cfg (str ''zk_namespace'') (str ''myrpc'') of None \<Rightarrow> (Inl Json_exception, c)
      | Some ns \<Rightarrow> let c = c\<lparr>cc_zk_namespace := ns\<rparr> in
     (case json_value_str J cfg (str ''zk_host'') (str ''localhost'') of None \<Rightarrow> (Inl Json_exception, c)
      | Some h \<Rightarrow> let c = c\<lparr>cc_zk_host := h\<rparr> in
     (case json_value_int J cfg (str ''zk_port'') 2181 of None \<Rightarrow> (Inl Json_exception, c)
      | Some p \<Rightarrow> let c = c\<lparr>cc_zk_port := sint p\<rparr> in
     (case json_value_int J cfg (str ''timeout_ms'') 3000 of None \<Rightarrow> (Inl Json_exception, c)
      | Some t \<Rightarrow> let c = c\<lparr>cc_timeout_ms := sint t\<rparr> in
     (case json_value_int J cfg (str ''retry_times'') 3 of None \<Rightarrow> (Inl Json_exception, c)
      | Some r \<Rightarrow> let c = c\<lparr>cc_retry_times := sint r\<rparr> in
     (case json_value_int J cfg (str ''server_port'') 8989 of None \<Rightarrow> (Inl Json_exception, c)
      | Some p \<Rightarrow> (Inr True, c\<lparr>cc_server_port := sint p\<rparr>)))))))))"

section \<open>The server's configuration\<close>

record server_config =
  max_connections :: u32
  servers_ip :: bytes
  servers_port :: u16
  servers_timeout :: u32
  servers_name_prefix :: bytes
  thread_pool_section :: thread_pool_config
  registry_section :: service_registry_config

definition new_server_config :: server_config where
  "new_server_config = \<lparr>max_connections = 0, servers_ip = [], servers_port = 0, servers_timeout = 0,
     servers_name_prefix = [], thread_pool_section = new_thread_pool_config, registry_section = new_registry_config\<rparr>"

text \<open>The singletons the initialisation writes to, and the world outside.\<close>

record 'z process =
  server_cfg :: server_config
  zk :: zk_handler
  balancer_inst :: "load_balancer option"
  world :: 'z

definition read_basics :: "'j json_ops \<Rightarrow> 'j \<Rightarrow> server_config \<Rightarrow> bool \<times> server_config" where
  "read_basics J cfg c =
     (case json_value_str J cfg (str ''servers_name_prefix'') (str ''myrpc'') of None \<Rightarrow> (False, c)
      | Some v \<Rightarrow> let c = c\<lparr>servers_name_prefix := v\<rparr> in
     (case json_value_str J cfg (str ''servers_ip'') (str ''0.0.0.0'') of None \<Rightarrow> (False, c)
      | Some v \<Rightarrow> let c = c\<lparr>servers_ip := v\<rparr> in
     (case json_value_int J cfg (str ''servers_port'') 8989 of None \<Rightarrow> (False, c)
      | Some v \<Rightarrow> let c = c\<lparr>servers_port := ucast v\<rparr> in
     (case json_value_int J cfg (str ''timeout'') 3000 of None \<Rightarrow> (False, c)
      | Some v \<Rightarrow> let c = c\<lparr>servers_timeout := v\<rparr> in
     (case json_value_int J cfg (str ''max_connections'') 1000 of None \<Rightarrow> (False, c)
      | Some v \<Rightarrow> (True, c\<lparr>max_connections := v\<rparr>))))))"

definition init_registry :: "'j json_ops \<Rightarrow> (bytes \<Rightarrow> bytes option) \<Rightarrow> 'j \<Rightarrow> 'z process \<Rightarrow> bool \<times> 'z process" where
  "init_registry J files cfg s =
     (if \<not> json_contains J cfg (str ''register_config'') then (True, s)
      else case json_value_str J cfg (str ''register_config'') (str ''../config/servers.json'') of
        None \<Rightarrow> (False, s)
      | Some name \<Rightarrow>
          (case InitRegistryConfig J (files name) (registry_section (server_cfg s)) of (r, rc) \<Rightarrow>
             (r = Inr True, s\<lparr>server_cfg := (server_cfg s)\<lparr>registry_section := rc\<rparr>\<rparr>)))"

definition init_thread_pool :: "'j json_ops \<Rightarrow> 'j \<Rightarrow> 'z process \<Rightarrow> bool \<times> 'z process" where
  "init_thread_pool J cfg s =
     (if \<not> json_contains J cfg (str ''thread_pool'') then (True, s)
      else case InitThreadPoolConfig J (json_at J cfg (str ''thread_pool'')) (thread_pool_section (server_cfg s)) of
        (ok, tc) \<Rightarrow> (ok, s\<lparr>server_cfg := (server_cfg s)\<lparr>thread_pool_section := tc\<rparr>\<rparr>))"

definition init_scheduler :: "'z zk_lib \<Rightarrow> 'j json_ops \<Rightarrow> 'j \<Rightarrow> 'z process \<Rightarrow> bool \<times> 'z process" where
  "init_scheduler L J cfg s =
     (if \<not> json_contains J cfg (str ''scheduler'') then (True, s)
      else case initZkConnHandler L J (json_at J cfg (str ''scheduler'')) (zk s) (world s) of
        (ok, z, w) \<Rightarrow> (ok, s\<lparr>zk := z, world := w\<rparr>))"

definition init_strategy :: "'j json_ops \<Rightarrow> 'j \<Rightarrow> 'z process \<Rightarrow> bool \<times> 'z process" where
  "init_strategy J cfg s =
     (if \<not> json_contains J cfg (str ''load_balance_strategy'') then (True, s)
      else case json_get_str J (json_at J cfg (str ''load_balance_strategy'')) of
        None \<Rightarrow> (False, s)
      | Some strategy \<Rightarrow>
          (case initBalancer strategy (balancer_inst s) of (ok, inst) \<Rightarrow> (ok, s\<lparr>balancer_inst := inst\<rparr>)))"

text \<open>Every exception is caught and makes the function return false, as every failed part does.\<close>

definition InitRpcServerConfig :: "'z zk_lib \<Rightarrow> 'j json_ops \<Rightarrow> (bytes \<Rightarrow> bytes option) \<Rightarrow> bytes \<Rightarrow> 'z process
    \<Rightarrow> bool \<times> 'z process" where
  "InitRpcServerConfig L J files config_file s =
     (case files config_file of None \<Rightarrow> (False, s)
      | Some text \<Rightarrow>
     (case json_parse J text of None \<Rightarrow> (False, s)
      | Some cfg \<Rightarrow>
     (case read_basics J cfg (server_cfg s) of (ok, c) \<Rightarrow>
        let s = s\<lparr>server_cfg := c\<rparr> in
        if \<not> ok then (False, s) else
     (case init_registry J files cfg s of (ok, s) \<Rightarrow> if \<not> ok then (False, s) else
     (case init_thread_pool J cfg s of (ok, s) \<Rightarrow> if \<not> ok then (False, s) else
     (case init_scheduler L J cfg s of (ok, s) \<Rightarrow> if \<not> ok then (False, s) else
      init_strategy J cfg s))))))"

text \<open>\<open>servers_main\<close> builds the pool's configuration from the section.\<close>

definition pool_config_of :: "thread_pool_config \<Rightarrow> pool_config" where
  "pool_config_of c = \<lparr>core_threads = unat (tp_core_threads c), max_threads = unat (tp_max_threads c),
                       max_queue_size = unat (tp_queue_size c)\<rparr>"

lemma InitThreadPoolConfig_accepts:
  assumes "InitThreadPoolConfig J cfg c = (True, c')"
  shows "0 < tp_core_threads c'" "tp_core_threads c' \<le> tp_max_threads c'" "0 < tp_queue_size c'"
    "0 < tp_keep_alive_time c'"
  using assms
  by (auto simp: InitThreadPoolConfig_def Let_def word_gt_0 not_less split: option.splits if_splits)

lemma pool_config_accepted:
  assumes "InitThreadPoolConfig J cfg c = (True, c')"
  shows "0 < core_threads (pool_config_of c')" "core_threads (pool_config_of c') \<le> max_threads (pool_config_of c')"
    "0 < max_queue_size (pool_config_of c')" "max_threads (pool_config_of c') < 2 ^ 16"
    "max_queue_size (pool_config_of c') < 2 ^ 32"
  using InitThreadPoolConfig_accepts [OF assms] unsigned_less [of "tp_max_threads c'", where 'a = nat]
    unsigned_less [of "tp_queue_size c'", where 'a = nat]
  by (simp_all add: pool_config_of_def unat_gt_0 word_gt_0 word_le_nat_alt)

lemma pool_step_config: "pool_step p q \<Longrightarrow> config q = config p"
  by (cases rule: pool_step.cases)
     (auto simp: enqueue_def adjust_thread_count_def worker_step_fields pause_def resume_def shutdown_begin_def
        shutdown_stop_def shutdown_timeout_def stop_now_def Let_def)

text \<open>A pool built from one configuration is one of the pools of the thread pool's own invariant.\<close>

lemma reach_from_config:
  assumes "reach (\<lambda>p. p = ThreadPool_config c) pool_step p" "core_threads c \<le> max_threads c"
  shows "config p = c" "pool_inv p"
proof -
  show "config p = c"
    using assms(1) by (induction rule: reach.induct) (simp_all add: ThreadPool_config_def pool_step_config)
  have "reach pool_init pool_step p"
    using assms(1)
  proof (induction rule: reach.induct)
    case (reach_init p)
    with assms(2) show ?case by (auto intro: reach.reach_init simp: pool_init_def)
  qed (rule reach.reach_step)
  then show "pool_inv p" by (rule pool_system.reach_inv)
qed

text \<open>The steps of the initialisation that leave the thread pool section alone.\<close>

lemma section_kept:
  "read_basics J cfg c = (ok, c') \<Longrightarrow> thread_pool_section c' = thread_pool_section c"
  "init_registry J files cfg u = (ok, u') \<Longrightarrow> thread_pool_section (server_cfg u') = thread_pool_section (server_cfg u)"
  "init_scheduler L J cfg u = (ok, u') \<Longrightarrow> thread_pool_section (server_cfg u') = thread_pool_section (server_cfg u)"
  "init_strategy J cfg u = (ok, u') \<Longrightarrow> thread_pool_section (server_cfg u') = thread_pool_section (server_cfg u)"
  by (auto simp: read_basics_def init_registry_def init_scheduler_def init_strategy_def Let_def
      split: if_splits option.splits prod.splits)

lemma InitRpcServerConfig_section:
  assumes "InitRpcServerConfig L J files f s = (True, s')"
    and "files f = Some text" "json_parse J text = Some cfg" "\<not> json_contains J cfg (str ''thread_pool'')"
  shows "thread_pool_section (server_cfg s') = thread_pool_section (server_cfg s)"
  using assms
  by (auto simp: InitRpcServerConfig_def Let_def init_thread_pool_def split: prod.splits if_splits
      dest!: section_kept)

text \<open>Whatever the file says, the pool that is built from an accepted configuration can exist.\<close>

definition section_ok :: "thread_pool_config \<Rightarrow> bool" where
  "section_ok c \<longleftrightarrow> core_threads (pool_config_of c) \<le> max_threads (pool_config_of c)"

lemma InitRpcServerConfig_pool:
  assumes "InitRpcServerConfig L J files f s = (True, s')" and "section_ok (thread_pool_section (server_cfg s))"
  shows "section_ok (thread_pool_section (server_cfg s'))"
proof -
  have pool: "init_thread_pool J cfg u = (True, u') \<Longrightarrow> section_ok (thread_pool_section (server_cfg u)) \<Longrightarrow>
      section_ok (thread_pool_section (server_cfg u'))" for cfg and u u' :: "'a process"
    by (auto simp: init_thread_pool_def section_ok_def split: if_splits prod.splits dest: pool_config_accepted(2))
  from assms(1) obtain cfg c u1 u2 u3 where
    "read_basics J cfg (server_cfg s) = (True, c)" "init_registry J files cfg (s\<lparr>server_cfg := c\<rparr>) = (True, u1)"
    "init_thread_pool J cfg u1 = (True, u2)" "init_scheduler L J cfg u2 = (True, u3)" "init_strategy J cfg u3 = (True, s')"
    by (auto simp: InitRpcServerConfig_def Let_def split: option.splits prod.splits if_splits)
  with assms(2) pool show ?thesis by (auto dest!: section_kept)
qed

section \<open>Properties\<close>

text \<open>
  An accepted thread pool section gives a pool that works: in every state the pool reaches it
  keeps the configuration of the section, it has fewer than 2 to the 16 threads, at least one of
  them alive until it is stopped, and its queue never exceeds the (non-zero) configured size.
\<close>

theorem thread_pool_config_valid:
  assumes "InitThreadPoolConfig J cfg c = (True, c')"
    and "reach (\<lambda>p. p = ThreadPool_config (pool_config_of c')) pool_step p"
  shows "config p = pool_config_of c' \<and> current_threads p < 2 ^ 16
     \<and> (\<not> stop p \<longrightarrow> 0 < alive (workers p)) \<and> queue_size p \<le> unat (tp_queue_size c')"
  using pool_config_accepted [OF assms(1)] reach_from_config [OF assms(2)]
  by (auto simp: inv_defs pool_config_of_def queue_size_def)

definition sample_section :: sample_json where
  "sample_section = SObj [(str ''max_threads'', SInt 65546), (str ''queue_size'', SInt 5)]"

text \<open>The narrowing to sixteen bits is visible here: 65546 threads are accepted as ten.\<close>

theorem thread_pool_config_valid_witness:
  "\<exists>c'. InitThreadPoolConfig sample_ops sample_section new_thread_pool_config = (True, c')
     \<and> tp_max_threads c' = 10
     \<and> 0 < alive (workers (ThreadPool_config (pool_config_of c')))
     \<and> queue_size (ThreadPool_config (pool_config_of c')) \<le> 5"
proof -
  let ?c = "\<lparr>tp_max_threads = 10, tp_queue_size = 5, tp_keep_alive_time = 60, tp_core_threads = 10\<rparr> :: thread_pool_config"
  have ok: "InitThreadPoolConfig sample_ops sample_section new_thread_pool_config = (True, ?c)"
    by (simp add: InitThreadPoolConfig_def sample_ops_def sample_section_def new_thread_pool_config_def str_def Let_def)
  have "reach (\<lambda>p. p = ThreadPool_config (pool_config_of ?c)) pool_step (ThreadPool_config (pool_config_of ?c))"
    by (rule reach_init) simp
  from thread_pool_config_valid [OF ok this] have "0 < alive (workers (ThreadPool_config (pool_config_of ?c)))"
    "queue_size (ThreadPool_config (pool_config_of ?c)) \<le> 5"
    by (simp_all add: ThreadPool_config_def)
  with ok show ?thesis by (intro exI [of _ ?c]) simp
qed

text \<open>
  C40. A configuration file without a \<open>thread_pool\<close> section is accepted, and the pool the server
  then builds is dead: in every state it reaches it has no thread, and nothing that is submitted
  is ever executed.
\<close>

theorem no_thread_pool_section:
  assumes "InitRpcServerConfig L J files f s = (True, s')"
    and "files f = Some text" "json_parse J text = Some cfg" "\<not> json_contains J cfg (str ''thread_pool'')"
    and "thread_pool_section (server_cfg s) = new_thread_pool_config"
    and "reach (\<lambda>p. p = ThreadPool_config (pool_config_of (thread_pool_section (server_cfg s')))) pool_step p"
  shows "workers p = [] \<and> finished p = []"
proof -
  let ?c = "pool_config_of new_thread_pool_config"
  have sec: "thread_pool_section (server_cfg s') = new_thread_pool_config"
    using InitRpcServerConfig_section [OF assms(1-4)] assms(5) by simp
  have zero: "core_threads ?c = 0" "max_threads ?c = 0"
    by (simp_all add: pool_config_of_def new_thread_pool_config_def)
  from assms(6) have "reach (\<lambda>p. p = ThreadPool_config ?c) pool_step p" by (simp only: sec)
  then show ?thesis
  proof (induction rule: reach.induct)
    case (reach_step p q)
    have "max_threads (config p) = 0"
      using reach_from_config [OF reach_step.hyps(1)] zero by simp
    moreover from reach_step.IH have "\<not> worker_step p q" for q
      by (auto elim: worker_step.cases)
    ultimately show ?case
      using reach_step.IH
      by (cases rule: pool_step.cases [OF reach_step.hyps(2)])
         (auto simp: enqueue_def adjust_thread_count_def pause_def resume_def shutdown_begin_def
          shutdown_stop_def shutdown_timeout_def stop_now_def Let_def)
  qed (simp add: ThreadPool_config_def zero)
qed

definition sample_process :: "(bytes \<times> bytes) list process" where
  "sample_process = \<lparr>server_cfg = new_server_config, zk = new_handler 2181 5, balancer_inst = None, world = []\<rparr>"

definition sample_configured :: "(bytes \<times> bytes) list process" where
  "sample_configured = sample_process\<lparr>server_cfg := new_server_config\<lparr>servers_name_prefix := str ''myrpc'',
     servers_ip := str ''0.0.0.0'', servers_port := 8989, servers_timeout := 3000, max_connections := 1000\<rparr>\<rparr>"

lemma sample_init:
  "InitRpcServerConfig sample_zk sample_ops (\<lambda>_. Some [1]) f sample_process = (True, sample_configured)"
  by (simp add: InitRpcServerConfig_def read_basics_def init_registry_def init_thread_pool_def init_scheduler_def
      init_strategy_def sample_ops_def str_def sample_process_def sample_configured_def)

theorem no_thread_pool_section_witness:
  "\<exists>s'. InitRpcServerConfig sample_zk sample_ops (\<lambda>_. Some [1]) (str ''f'') sample_process = (True, s')
     \<and> workers (ThreadPool_config (pool_config_of (thread_pool_section (server_cfg s')))) = []
     \<and> finished (ThreadPool_config (pool_config_of (thread_pool_section (server_cfg s')))) = []"
proof -
  let ?cfg = "SObj [(str ''message'', SStr [1])]" and ?s = sample_configured
  have absent: "\<not> json_contains sample_ops ?cfg (str ''thread_pool'')"
    by (simp add: sample_ops_def str_def)
  have start: "reach (\<lambda>p. p = ThreadPool_config (pool_config_of (thread_pool_section (server_cfg ?s)))) pool_step
      (ThreadPool_config (pool_config_of (thread_pool_section (server_cfg ?s))))"
    by (rule reach_init) simp
  have "thread_pool_section (server_cfg sample_process) = new_thread_pool_config"
    by (simp add: sample_process_def new_server_config_def)
  from no_thread_pool_section [OF sample_init refl _ absent this start] sample_init show ?thesis
    by (intro exI [of _ ?s]) (simp add: sample_ops_def)
qed

end
