(* ===== verification/Create_Socket.thy ===== *)
theory Create_Socket
  imports Inet Load_Config
begin

text \<open>
  \<open>rpc_src/network/create_socket.h\<close> and \<open>create_socket.cpp\<close>: the listening socket. What the kernel
  answers is an argument; what the calls do to the kernel's table of sockets is part of the state.
\<close>

record create_socket =
  sock_fd :: int
  sock_ip :: bytes
  sock_port :: u16
  sock_max_connections :: int
  sock_timeout_ms :: int

record socket_answers =
  ans_socket :: int
  ans_reuse :: bool
  ans_nodelay :: bool
  ans_getfl :: int
  ans_setfl :: bool
  ans_bind :: bool
  ans_listen :: bool

definition CreateSocket :: "server_config \<Rightarrow> create_socket" where
  "CreateSocket c = \<lparr>sock_fd = -1, sock_ip = servers_ip c, sock_port = servers_port c,
     sock_max_connections = sint (max_connections c), sock_timeout_ms = sint (servers_timeout c)\<rparr>"

definition CreateSocket_destroy :: "create_socket \<Rightarrow> kernel \<Rightarrow> kernel" where
  "CreateSocket_destroy s k = (if sock_fd s > 0 then k_close (sock_fd s) k else k)"

definition SetSocketOpt :: "socket_answers \<Rightarrow> create_socket \<Rightarrow> kernel \<Rightarrow> bool \<times> kernel" where
  "SetSocketOpt a s k =
     (if \<not> ans_reuse a then (False, k)
      else if \<not> ans_nodelay a then (False, k)
      else if ans_getfl a < 0 \<or> \<not> ans_setfl a then (False, k)
      else (True, k\<lparr>k_nonblock := insert (sock_fd s) (k_nonblock k)\<rparr>))"

text \<open>The address \<open>Init\<close> binds to; \<open>None\<close> if the text is no address.\<close>

definition bind_address :: "bytes \<Rightarrow> nat list option" where
  "bind_address ip = (if ip = [] \<or> ip = str ''0.0.0.0'' then Some [0, 0, 0, 0] else inet_pton ip)"

definition Init :: "socket_answers \<Rightarrow> create_socket \<Rightarrow> kernel \<Rightarrow> bool \<times> create_socket \<times> kernel" where
  "Init a s k =
     (let s = s\<lparr>sock_fd := ans_socket a\<rparr> in
      if sock_fd s < 0 then (False, s, k)
      else let k = k_socket (sock_fd s) k;
               failed = (\<lambda>k. (False, s\<lparr>sock_fd := -1\<rparr>, k_close (sock_fd s) k))
      in case SetSocketOpt a s k of
           (False, k) \<Rightarrow> failed k
         | (True, k) \<Rightarrow>
             (case bind_address (sock_ip s) of
                None \<Rightarrow> failed k
              | Some addr \<Rightarrow>
                  if \<not> ans_bind a then failed k
                  else let k = k\<lparr>k_bound := (k_bound k)(sock_fd s \<mapsto> (addr, sock_port s))\<rparr> in
                    if \<not> ans_listen a then failed k
                    else (True, s, k\<lparr>k_listening := (k_listening k)(sock_fd s \<mapsto> sock_max_connections s)\<rparr>)))"

definition Create :: "socket_answers \<Rightarrow> server_config \<Rightarrow> kernel \<Rightarrow> create_socket option \<times> kernel" where
  "Create a c k =
     (case Init a (CreateSocket c) k of
        (False, s, k) \<Rightarrow> (None, CreateSocket_destroy s k)
      | (True, s, k) \<Rightarrow> (Some s, k))"

record accept_answers =
  ans_accept :: int
  ans_client_getfl :: int
  ans_client_setfl :: bool

definition Accept :: "accept_answers \<Rightarrow> create_socket \<Rightarrow> kernel \<Rightarrow> int \<times> kernel" where
  "Accept a s k =
     (let client_fd = ans_accept a in
      if client_fd < 0 then (-1, k)
      else let k = k_socket client_fd k in
        if ans_client_getfl a < 0 \<or> \<not> ans_client_setfl a then (-1, k_close client_fd k)
        else (client_fd, k\<lparr>k_nonblock := insert client_fd (k_nonblock k)\<rparr>))"

section \<open>Properties\<close>

lemma k_close_after:
  assumes "k_free f k"
  shows "k_close f ((k_socket f k)\<lparr>k_nonblock := insert f (k_nonblock k)\<rparr>) = k"
    and "k_close f ((k_socket f k)\<lparr>k_nonblock := insert f (k_nonblock k), k_bound := (k_bound k)(f \<mapsto> b)\<rparr>) = k"
    and "k_close f ((k_socket f k)\<lparr>k_nonblock := insert f (k_nonblock k), k_bound := (k_bound k)(f \<mapsto> b),
            k_listening := (k_listening k)(f \<mapsto> n)\<rparr>) = k"
  using assms by (cases k; auto simp: k_free_def k_close_def k_socket_def fun_eq_iff)+

lemma k_socket_fields [simp]:
  "k_nonblock (k_socket f k) = k_nonblock k" "k_bound (k_socket f k) = k_bound k"
  "k_listening (k_socket f k) = k_listening k" "k_open (k_socket f k) = insert f (k_open k)"
  by (simp_all add: k_socket_def)

lemma Create_outcome:
  assumes "ans_socket a < 0 \<or> k_free (ans_socket a) k"
  shows "case Create a c k of
      (None, k') \<Rightarrow> k' = k
    | (Some s, k') \<Rightarrow> \<exists>addr. bind_address (servers_ip c) = Some addr \<and> sock_fd s = ans_socket a
        \<and> sock_fd s \<in> k_open k' \<inter> k_nonblock k' \<and> k_bound k' (sock_fd s) = Some (addr, servers_port c)
        \<and> k_listening k' (sock_fd s) = Some (sint (max_connections c))
        \<and> (sock_fd s > 0 \<longrightarrow> CreateSocket_destroy s k' = k)"
proof (cases "ans_socket a < 0")
  case True
  then show ?thesis by (simp add: Create_def Init_def CreateSocket_destroy_def CreateSocket_def)
next
  case False
  with assms have free: "k_free (ans_socket a) k" by simp
  show ?thesis
    using False k_close_free [OF free] k_close_after [OF free]
    by (auto simp: Create_def Init_def SetSocketOpt_def CreateSocket_def CreateSocket_destroy_def Let_def
        split: option.splits)
qed

text \<open>
  The listening socket is set up completely or not at all: when \<open>Create\<close> succeeds, the new
  descriptor is non-blocking, bound to the configured address and port (the wildcard for an empty
  address) and listening with the configured backlog, and destroying the object closes it; when
  it fails, for whatever reason, the kernel's table is as before, so no descriptor leaks.
\<close>

theorem create_all_or_nothing:
  assumes "ans_socket a < 0 \<or> k_free (ans_socket a) k"
  shows "case Create a c k of
      (None, k') \<Rightarrow> k' = k
    | (Some s, k') \<Rightarrow> \<exists>addr. bind_address (servers_ip c) = Some addr \<and> sock_fd s = ans_socket a
        \<and> sock_fd s \<in> k_open k' \<inter> k_nonblock k' \<and> k_bound k' (sock_fd s) = Some (addr, servers_port c)
        \<and> k_listening k' (sock_fd s) = Some (sint (max_connections c))
        \<and> (sock_fd s > 0 \<longrightarrow> CreateSocket_destroy s k' = k)"
  by (rule Create_outcome [OF assms])

definition idle_kernel :: kernel where
  "idle_kernel = \<lparr>k_open = {0, 1, 2}, k_nonblock = {}, k_bound = Map.empty, k_listening = Map.empty, k_peer = Map.empty\<rparr>"

definition good_answers :: socket_answers where
  "good_answers = \<lparr>ans_socket = 3, ans_reuse = True, ans_nodelay = True, ans_getfl = 2, ans_setfl = True,
     ans_bind = True, ans_listen = True\<rparr>"

lemma idle_free: "k_free 3 idle_kernel"
  by (simp add: k_free_def idle_kernel_def)

theorem create_all_or_nothing_witness:
  "snd (Create (good_answers\<lparr>ans_listen := False\<rparr>) new_server_config idle_kernel) = idle_kernel
   \<and> (\<exists>s k'. Create good_answers new_server_config idle_kernel = (Some s, k') \<and> 3 \<in> k_open k'
        \<and> k_bound k' 3 = Some ([0, 0, 0, 0], 0))"
proof -
  let ?bad = "good_answers\<lparr>ans_listen := False\<rparr>"
  have "fst (Create ?bad new_server_config idle_kernel) = None"
    by (simp add: Create_def Init_def SetSocketOpt_def bind_address_def CreateSocket_def good_answers_def
        new_server_config_def Let_def)
  moreover have "ans_socket ?bad < 0 \<or> k_free (ans_socket ?bad) idle_kernel"
    by (simp add: good_answers_def idle_free)
  from create_all_or_nothing [OF this, of new_server_config]
  have "fst (Create ?bad new_server_config idle_kernel) = None \<Longrightarrow>
      snd (Create ?bad new_server_config idle_kernel) = idle_kernel"
    by (auto split: prod.splits option.splits)
  moreover have "\<exists>s k'. Create good_answers new_server_config idle_kernel = (Some s, k') \<and> 3 \<in> k_open k'
        \<and> k_bound k' 3 = Some ([0, 0, 0, 0], 0)"
    by (simp add: Create_def Init_def SetSocketOpt_def bind_address_def CreateSocket_def good_answers_def
        new_server_config_def Let_def k_socket_def)
  ultimately show ?thesis by blast
qed

end
