(* ===== verification/Servers_Main.thy ===== *)
theory Servers_Main
  imports Create_Socket Server_System Load_Config
begin

text \<open>
  \<open>rpc_src/core/servers_main.cpp\<close>: the server's \<open>main\<close>, which puts the components together. The
  state is that of the process: its singletons and the kernel's table of sockets.
\<close>

record 'z system =
  proc :: "'z process"
  sys_kernel :: kernel
  sys_services :: service_table
  sys_pool :: pool_instance

datatype start_result = Failed int | Crashed fault | Started create_socket server

text \<open>
  The constructor of \<open>MessageCycle\<close>, with the empty table of the connection manager. \<open>h\<close> is the
  memory in which connection objects will be created.
\<close>

definition new_cycle :: "conn_heap \<Rightarrow> kernel \<Rightarrow> pool_instance \<Rightarrow> server" where
  "new_cycle h k inst = \<lparr>heap = h, fresh_ref = 0, conns = Map.empty, interest = {}, open_fds = k_open k,
     listen_fds = {}, running_flag = False, thread_pool = inst, jobs = [], next_job = 0\<rparr>"

text \<open>
  \<open>main\<close> up to the event loop. On every \<open>return 1\<close> the local \<open>socket_ptr\<close> goes away (\<open>abandon\<close>); the
  exception of the constructor of \<open>MessageCycle\<close> is not caught.
\<close>

definition start_up :: "'z zk_lib \<Rightarrow> 'j json_ops \<Rightarrow> (bytes \<Rightarrow> bytes option) \<Rightarrow> socket_answers \<Rightarrow> bool \<Rightarrow> bool
    \<Rightarrow> conn_heap \<Rightarrow> 'z system \<Rightarrow> start_result \<times> 'z system" where
  "start_up L J files a epoll_created epoll_added h st =
     (case InitRpcServerConfig L J files (str ''../config/rpc_server.json'') (proc st) of (ok, p) \<Rightarrow>
        let st = st\<lparr>proc := p\<rparr> in
        if \<not> ok then (Failed 1, st)
        else case Create a (server_cfg p) (sys_kernel st) of
          (None, k) \<Rightarrow> (Failed 1, st\<lparr>sys_kernel := k\<rparr>)
        | (Some sock, k) \<Rightarrow>
            let st = st\<lparr>sys_kernel := k\<rparr>;
                abandon = (\<lambda>st. st\<lparr>sys_kernel := CreateSocket_destroy sock (sys_kernel st)\<rparr>) in
            (case RegisterService (Some (RpcService J)) (sys_services st) of (ok, services) \<Rightarrow>
               let st = st\<lparr>sys_services := services\<rparr> in
               if \<not> ok then (Failed 1, abandon st)
               else case registerServicesFromConfig L (Some (registry_section (server_cfg p))) (zk p) (world p) of
                 (ok, z, w) \<Rightarrow>
                   let st = st\<lparr>proc := p\<lparr>zk := z, world := w\<rparr>\<rparr> in
                   if \<not> ok then (Failed 1, abandon st)
                   else let st = st\<lparr>sys_pool := snd (init_config (pool_config_of (thread_pool_section (server_cfg p)))
                                                   (sys_pool st))\<rparr> in
                     if \<not> epoll_created then (Crashed Runtime_error, st)
                     else (case AddListenFd epoll_added (sock_fd sock) (new_cycle h (sys_kernel st) (sys_pool st)) of
                             (ok, cycle) \<Rightarrow>
                               if \<not> ok then (Failed 1, abandon st) else (Started sock cycle, st))))"

text \<open>
  The whole of \<open>main\<close>. While the loop and the shutdown of the pool run, the threads take the steps
  of \<open>Server_System\<close>; the result of \<open>shutdown\<close> is ignored. Then the ZooKeeper handler is cleaned up,
  and on \<open>return\<close> the event loop and the listening socket are destroyed. An exception that leaves
  the loop ends the process.
\<close>

datatype main_result = Exit_code int | Terminated fault

definition loop_start :: "server \<Rightarrow> rpc_system" where
  "loop_start cycle = \<lparr>srv = cycle\<lparr>running_flag := True\<rparr>, main_at = Waiting_events, executed = []\<rparr>"

definition leave_main :: "'z zk_lib \<Rightarrow> create_socket \<Rightarrow> rpc_system \<Rightarrow> 'z system \<Rightarrow> rpc_system \<times> 'z system" where
  "leave_main L sock sys st =
     (case cleanup L (zk (proc st)) (world (proc st)) of (z, w) \<Rightarrow>
        (sys\<lparr>srv := MessageCycle_destroy (srv sys)\<rparr>,
         st\<lparr>proc := (proc st)\<lparr>zk := z, world := w\<rparr>, sys_kernel := CreateSocket_destroy sock (sys_kernel st),
            sys_pool := thread_pool (srv sys)\<rparr>))"

inductive servers_main :: "'z zk_lib \<Rightarrow> 'j json_ops \<Rightarrow> (bytes \<Rightarrow> bytes option) \<Rightarrow> platform \<Rightarrow> socket_answers \<Rightarrow> 'z system
    \<Rightarrow> main_result \<Rightarrow> rpc_system option \<Rightarrow> 'z system \<Rightarrow> bool" for L J files P a st where
  main_fails: "start_up L J files a epoll_created epoll_added h st = (Failed code, st') \<Longrightarrow>
     servers_main L J files P a st (Exit_code code) None st'"
| main_throws: "start_up L J files a epoll_created epoll_added h st = (Crashed e, st') \<Longrightarrow>
     servers_main L J files P a st (Terminated e) None st'"
| main_dies: "start_up L J files a epoll_created epoll_added h st = (Started sock cycle, st') \<Longrightarrow>
     steps (sys_step P (sys_services st')) (loop_start cycle) sys \<Longrightarrow> main_at sys = Died e \<Longrightarrow>
     servers_main L J files P a st (Terminated e) (Some sys) st'"
| main_ends: "start_up L J files a epoll_created epoll_added h st = (Started sock cycle, st') \<Longrightarrow>
     steps (sys_step P (sys_services st')) (loop_start cycle) sys \<Longrightarrow> main_at sys = Exited \<Longrightarrow>
     leave_main L sock sys st' = (final, st'') \<Longrightarrow>
     servers_main L J files P a st (Exit_code 0) (Some final) st''"

section \<open>Properties\<close>

lemma CreateSocket_destroy_created:
  assumes "Create a c k = (Some sock, k')" and "ans_socket a < 0 \<or> (0 < ans_socket a \<and> k_free (ans_socket a) k)"
  shows "CreateSocket_destroy sock k' = k \<and> sock_fd sock = ans_socket a \<and> ans_socket a \<in> k_open k'
     \<and> k_listening k' (ans_socket a) = Some (sint (max_connections c))"
proof -
  from assms(2) have "ans_socket a < 0 \<or> k_free (ans_socket a) k" by blast
  from Create_outcome [OF this, of c] assms have f: "sock_fd sock = ans_socket a" "sock_fd sock \<in> k_open k'"
    "k_listening k' (sock_fd sock) = Some (sint (max_connections c))"
    "sock_fd sock > 0 \<Longrightarrow> CreateSocket_destroy sock k' = k"
    by auto
  have "\<not> ans_socket a < 0" using assms(1) by (auto simp: Create_def Init_def split: if_splits)
  with assms(2) f show ?thesis by simp
qed

lemma Create_failed:
  assumes "Create a c k = (None, k')" and "ans_socket a < 0 \<or> (0 < ans_socket a \<and> k_free (ans_socket a) k)"
  shows "k' = k"
proof -
  from assms(2) have "ans_socket a < 0 \<or> k_free (ans_socket a) k" by blast
  from Create_outcome [OF this, of c] assms show ?thesis by simp
qed

lemma RegisterService_free:
  "RegisterService (Some svc) t = (True, t') \<Longrightarrow> t' (GetServiceName svc) = Some svc"
  by (auto simp: RegisterService_def Let_def split: if_splits)

lemma start_up_outcome:
  assumes "start_up L J files a epoll_created epoll_added h st = (result, st')"
    and "ans_socket a < 0 \<or> (0 < ans_socket a \<and> k_free (ans_socket a) (sys_kernel st))"
  shows "case result of
      Failed code \<Rightarrow> code = 1 \<and> sys_kernel st' = sys_kernel st
    | Crashed e \<Rightarrow> \<not> epoll_created \<and> e = Runtime_error
    | Started sock cycle \<Rightarrow> sock_fd sock = ans_socket a \<and> CreateSocket_destroy sock (sys_kernel st') = sys_kernel st
        \<and> cycle_init cycle \<and> next_job cycle = 0 \<and> listen_fds cycle = {ans_socket a}
        \<and> interest cycle = {ans_socket a} \<and> ans_socket a \<in> open_fds cycle \<and> k_listening (sys_kernel st') (ans_socket a) \<noteq> None
        \<and> sys_services st' (str ''RpcService'') = Some (RpcService J) \<and> thread_pool cycle = sys_pool st'
        \<and> (sys_pool st = None \<longrightarrow> sys_pool st' =
             Some (ThreadPool_config (pool_config_of (thread_pool_section (server_cfg (proc st'))))))"
proof -
  obtain ok p where p: "InitRpcServerConfig L J files (str ''../config/rpc_server.json'') (proc st) = (ok, p)" by fastforce
  obtain so k where k: "Create a (server_cfg p) (sys_kernel st) = (so, k)" by fastforce
  show ?thesis
  proof (cases "ok \<and> so \<noteq> None")
    case False
    with assms(1) p k have "result = Failed 1 \<and> (sys_kernel st' = sys_kernel st \<or> (so = None \<and> sys_kernel st' = k))"
      by (auto simp: start_up_def Let_def split: if_splits)
    with k Create_failed [OF _ assms(2), of "server_cfg p" k] show ?thesis by auto
  next
    case True
    then obtain sock where so: "so = Some sock" by blast
    note sock = CreateSocket_destroy_created [OF k [unfolded so] assms(2)]
    obtain ok2 sv where r: "RegisterService (Some (RpcService J)) (sys_services st) = (ok2, sv)" by fastforce
    obtain ok3 z w where g: "registerServicesFromConfig L (Some (registry_section (server_cfg p))) (zk p) (world p) = (ok3, z, w)"
      by (metis prod_cases3)
    let ?inst = "snd (init_config (pool_config_of (thread_pool_section (server_cfg p))) (sys_pool st))"
    let ?st = "st\<lparr>proc := p\<lparr>zk := z, world := w\<rparr>, sys_kernel := k, sys_services := sv, sys_pool := ?inst\<rparr>"
    let ?cycle = "(new_cycle h k ?inst)\<lparr>interest := {ans_socket a}, listen_fds := {ans_socket a}\<rparr>"
    from assms(1) p k so True r g sock consider
      (failed) "result = Failed 1" "sys_kernel st' = sys_kernel st"
    | (crashed) "result = Crashed Runtime_error" "\<not> epoll_created"
    | (started) "result = Started sock ?cycle" "st' = ?st" "ok2"
      by (auto simp: start_up_def AddListenFd_def new_cycle_def Let_def split: if_splits)
    then show ?thesis
    proof cases
      case started
      have "cycle_init ?cycle" using sock by (simp add: cycle_init_def new_cycle_def)
      moreover have "sv (str ''RpcService'') = Some (RpcService J)"
        using RegisterService_free [of "RpcService J"] r started(3) by (simp add: RpcService_def)
      ultimately show ?thesis
        using started(1,2) sock by (simp add: new_cycle_def init_config_def)
    qed simp_all
  qed
qed

lemma start_up_config:
  assumes "start_up L J files a epoll_created epoll_added h st = (Started sock cycle, st')"
    and "InitRpcServerConfig L J files (str ''../config/rpc_server.json'') (proc st) = (ok, p)"
  shows "ok \<and> server_cfg (proc st') = server_cfg p"
  using assms by (auto simp: start_up_def Let_def split: if_splits option.splits prod.splits)

lemma start_up_section:
  assumes "start_up L J files a epoll_created epoll_added h st = (Started sock cycle, st')"
    and "section_ok (thread_pool_section (server_cfg (proc st)))"
  shows "section_ok (thread_pool_section (server_cfg (proc st')))"
proof -
  obtain ok p where p: "InitRpcServerConfig L J files (str ''../config/rpc_server.json'') (proc st) = (ok, p)" by fastforce
  with start_up_config [OF assms(1)] InitRpcServerConfig_pool [of L J files _ "proc st" p] p assms(2) show ?thesis by simp
qed

text \<open>What \<open>start_up\<close> leaves is an initial state of the running server.\<close>

lemma start_up_init:
  assumes "start_up L J files a epoll_created epoll_added h st = (Started sock cycle, st')"
    and "ans_socket a < 0 \<or> (0 < ans_socket a \<and> k_free (ans_socket a) (sys_kernel st))"
    and "sys_pool st = None" and "section_ok (thread_pool_section (server_cfg (proc st)))"
  shows "sys_init (loop_start cycle)" and "CreateSocket_destroy sock (sys_kernel st') = sys_kernel st"
  using start_up_outcome [OF assms(1,2)] start_up_section [OF assms(1,4)] assms(3)
  by (auto simp: sys_init_def loop_start_def cycle_init_def pool_init_def section_ok_def)

lemma cleanup_sets_flag: "cleanup L s w = (s', w') \<Longrightarrow> cleanup_done s'"
  by (auto simp: cleanup_def Let_def split: if_splits option.splits)


definition sample_system :: "(bytes \<times> bytes) list system" where
  "sample_system = \<lparr>proc = sample_process, sys_kernel = idle_kernel, sys_services = Map.empty, sys_pool = None\<rparr>"

lemma sample_registers:
  "registerServicesFromConfig L (Some (registry_section (server_cfg sample_configured))) z w = (True, z, w)"
  by (simp add: registerServicesFromConfig_def sample_configured_def sample_process_def new_server_config_def
      new_registry_config_def)

lemma sample_starts:
  "\<exists>sock cycle st'. start_up sample_zk sample_ops (\<lambda>_. Some [1]) good_answers True True (\<lambda>_. new_connection (-1)) sample_system
     = (Started sock cycle, st')"
  "\<exists>st'. start_up sample_zk sample_ops (\<lambda>_. Some [1]) (good_answers\<lparr>ans_listen := False\<rparr>) True True
     (\<lambda>_. new_connection (-1)) sample_system = (Failed 1, st')"
proof -
  have ip: "servers_ip (server_cfg sample_configured) = str ''0.0.0.0''"
    by (simp add: sample_configured_def sample_process_def)
  show "\<exists>sock cycle st'. start_up sample_zk sample_ops (\<lambda>_. Some [1]) good_answers True True (\<lambda>_. new_connection (-1)) sample_system
     = (Started sock cycle, st')"
    by (simp add: start_up_def sample_system_def sample_init sample_registers Create_def Init_def SetSocketOpt_def
        bind_address_def CreateSocket_def good_answers_def ip RegisterService_def AddListenFd_def Let_def)
  show "\<exists>st'. start_up sample_zk sample_ops (\<lambda>_. Some [1]) (good_answers\<lparr>ans_listen := False\<rparr>) True True
     (\<lambda>_. new_connection (-1)) sample_system = (Failed 1, st')"
    by (simp add: start_up_def sample_system_def sample_init Create_def Init_def SetSocketOpt_def
        bind_address_def CreateSocket_def good_answers_def ip Let_def)
qed



text \<open>A run of \<open>main\<close> to its end: the loop is left at once and the pool, which has no thread, closes.\<close>

definition closed_server :: "server \<Rightarrow> pool \<Rightarrow> rpc_system" where
  "closed_server cycle p = \<lparr>srv = cycle\<lparr>running_flag := True, thread_pool := None\<rparr>, main_at = Exited, executed = []\<rparr>"

lemma idle_server_closes:
  assumes "thread_pool cycle = Some p" and "pstate p = RUNNING" and "tasks p = []" and "active_threads p = 0" and "workers p = []"
  shows "steps (sys_step P services) (loop_start cycle) (closed_server cycle p)"
proof -
  let ?at = "\<lambda>inst m. \<lparr>srv = cycle\<lparr>running_flag := True, thread_pool := inst\<rparr>, main_at = m, executed = []\<rparr>"
  let ?q = "p\<lparr>pstate := SHUTTING_DOWN, phase := Draining\<rparr>"
  have sd: "shutdown_begin p = (None, ?q)" using assms(2) by (simp add: shutdown_begin_def)
  have eq: "cycle\<lparr>running_flag := True, thread_pool := Some p\<rparr> = cycle\<lparr>running_flag := True\<rparr>"
    using assms(1) by (cases cycle) simp
  have 1: "sys_step P services (loop_start cycle) (?at (Some p) Loop_left)"
    using eq y_leave [of "loop_start cycle" P services] by (simp add: loop_start_def)
  have 2: "sys_step P services (?at (Some p) Loop_left) (?at (Some ?q) Shutting_pool)"
    using y_shutdown [of "?at (Some p) Loop_left" p ?q P services] sd by simp
  have 3: "sys_step P services (?at (Some ?q) Shutting_pool) (?at (Some (shutdown_stop ?q)) Shutting_pool)"
    using y_drained [of "?at (Some ?q) Shutting_pool" ?q P services] assms(3,4) by simp
  have 4: "sys_step P services (?at (Some (shutdown_stop ?q)) Shutting_pool) (?at None Exited)"
    using y_joined [of "?at (Some (shutdown_stop ?q)) Shutting_pool" "shutdown_stop ?q" P services] assms(5)
    by (simp add: shutdown_returns_true_def shutdown_stop_def)
  show ?thesis unfolding closed_server_def
    by (rule steps_snoc, rule steps_snoc, rule steps_snoc, rule steps_single, rule 1, rule 2, rule 3, rule 4)
qed


end
