(* ===== verification/Zk_Sessions.thy ===== *)
theory Zk_Sessions
  imports Zk_Conn_Handler
begin

text \<open>
  The ZooKeeper handler over its whole life: every public operation is a step on the handler, the
  balancer's instance and the outside world, and an invariant says what the handler's fields are
  allowed to hold once it has been initialised.
\<close>

type_synonym 'z handler_state = "zk_handler \<times> load_balancer option \<times> 'z"

inductive handler_step :: "'z zk_lib \<Rightarrow> 'j json_ops \<Rightarrow> (nat \<Rightarrow> int \<Rightarrow> int) \<Rightarrow> 'z handler_state \<Rightarrow> 'z handler_state \<Rightarrow> bool"
  for L J rng where
  h_init: "initZkConnHandler L J config s w = (ok, s', w') \<Longrightarrow> handler_step L J rng (s, lb, w) (s', lb, w')"
| h_host: "handler_step L J rng (s, lb, w) (setZkHost host s, lb, w)"
| h_port: "handler_step L J rng (s, lb, w) (setZkPort port s, lb, w)"
| h_namespace: "handler_step L J rng (s, lb, w) (setZkNamespace ns s, lb, w)"
| h_interval: "handler_step L J rng (s, lb, w) (setZkRetryInterval seconds s, lb, w)"
| h_ensure: "ensureZkConnection L s w = (ok, s', w') \<Longrightarrow> handler_step L J rng (s, lb, w) (s', lb, w')"
| h_all: "getAllServers L ns s w = (found, s', w') \<Longrightarrow> handler_step L J rng (s, lb, w) (s', lb, w')"
| h_get: "getServer L rng ns s lb w = (server, s', lb', w') \<Longrightarrow> handler_step L J rng (s, lb, w) (s', lb', w')"
| h_registry: "getOrCreateServiceRegistry L s w = (r, s', w') \<Longrightarrow> handler_step L J rng (s, lb, w) (s', lb, w')"
| h_register: "Handler_registerService L name address s w = (ok, s', w') \<Longrightarrow> handler_step L J rng (s, lb, w) (s', lb, w')"
| h_config: "registerServicesFromConfig L config s w = (ok, s', w') \<Longrightarrow> handler_step L J rng (s, lb, w) (s', lb, w')"
| h_cleanup: "cleanup L s w = (s', w') \<Longrightarrow> handler_step L J rng (s, lb, w) (s', lb, w')"

section \<open>Well-formed handlers\<close>

text \<open>
  The fields that the settings bound, and the objects behind the pointers: the port is a TCP port,
  the host is not empty, a registry in place still has its session handle, and no server in the
  list is the empty string, which callers take for "no server".
\<close>

definition address_wf :: "zk_handler \<Rightarrow> bool" where
  "address_wf s \<longleftrightarrow> 0 < zk_port s \<and> zk_port s < 2 ^ 16 \<and> zk_host s \<noteq> []"

definition content_wf :: "zk_handler \<Rightarrow> bool" where
  "content_wf s \<longleftrightarrow> (\<forall>r. registry_ptr s = Some r \<longrightarrow> zk_handle r \<noteq> None) \<and> [] \<notin> set (servers s) \<and> \<not> zk_running s"

definition handler_wf :: "zk_handler \<Rightarrow> bool" where
  "handler_wf s \<longleftrightarrow> address_wf s \<and> content_wf s"

lemmas wf_defs = handler_wf_def address_wf_def content_wf_def

text \<open>What does not touch the address keeps it; stated once for all operations.\<close>

definition same_address :: "zk_handler \<Rightarrow> zk_handler \<Rightarrow> bool" where
  "same_address s t \<longleftrightarrow> zk_port t = zk_port s \<and> zk_host t = zk_host s"

lemma same_address_trans: "same_address s t \<Longrightarrow> same_address t u \<Longrightarrow> same_address s u"
  by (simp add: same_address_def)

lemma same_address_wf: "same_address s t \<Longrightarrow> address_wf s \<Longrightarrow> address_wf t"
  by (simp add: same_address_def address_wf_def)

text \<open>An operation that keeps the address and the content's well-formedness.\<close>

definition keeps_wf :: "zk_handler \<Rightarrow> zk_handler \<Rightarrow> bool" where
  "keeps_wf s t \<longleftrightarrow> same_address s t \<and> (content_wf s \<longrightarrow> content_wf t)"

lemma keeps_refl [simp]: "keeps_wf s s"
  by (simp add: keeps_wf_def same_address_def)

lemma keeps_trans [trans]: "keeps_wf s t \<Longrightarrow> keeps_wf t u \<Longrightarrow> keeps_wf s u"
  by (simp add: keeps_wf_def same_address_def)

lemma keeps_handler_wf: "keeps_wf s t \<Longrightarrow> handler_wf s \<Longrightarrow> handler_wf t"
  by (auto simp: keeps_wf_def handler_wf_def intro: same_address_wf)

lemma keeps_registry: "zk_handle r \<noteq> None \<Longrightarrow> keeps_wf s (s\<lparr>registry_ptr := Some r\<rparr>)"
  by (auto simp: keeps_wf_def same_address_def content_wf_def)

lemma keeps_simple:
  "keeps_wf s (s\<lparr>registry_ptr := None\<rparr>)" "keeps_wf s (s\<lparr>zk_client := c\<rparr>)" "keeps_wf s (s\<lparr>cleanup_done := d\<rparr>)"
  "[] \<notin> set xs \<Longrightarrow> keeps_wf s (s\<lparr>servers := xs\<rparr>)"
  by (auto simp: keeps_wf_def same_address_def content_wf_def)

lemma cleanup_keeps: "cleanup L s w = (s', w') \<Longrightarrow> keeps_wf s s'"
  by (auto simp: cleanup_def Let_def keeps_wf_def same_address_def content_wf_def split: if_splits option.splits)

lemma await_state_keeps: "await_state L h n s w = (ok, s', w') \<Longrightarrow> keeps_wf s s'"
proof (induction n arbitrary: w)
  case 0
  then show ?case by (auto split: prod.splits dest: cleanup_keeps)
next
  case (Suc n)
  then show ?case by (auto simp: Let_def split: prod.splits if_splits dest: cleanup_keeps)
qed

lemma ensure_keeps: "ensureZkConnection L s w = (ok, s', w') \<Longrightarrow> keeps_wf s s'"
  by (auto simp: ensureZkConnection_def split: option.splits prod.splits
      dest!: await_state_keeps intro: keeps_trans [OF keeps_simple(2)])

lemma read_children_nonempty: "[] \<notin> set (fst (read_children L h ns children w))"
proof (induction children arbitrary: w)
  case (Cons c cs)
  obtain rc d w1 where g: "zoo_get L h (ns @ [slash] @ c) BUFFER_SIZE w = ((rc, d), w1)" by (metis surj_pair)
  with Cons [of w1] show ?case by (simp split: prod.split) auto
qed simp

lemma getAllServers_keeps:
  assumes "getAllServers L ns s w = (found, s', w')"
  shows "keeps_wf s s' \<and> [] \<notin> set found"
proof -
  obtain ok s1 w1 where e: "ensureZkConnection L s w = (ok, s1, w1)" by (metis prod_cases3)
  with assms have "s' = s1" by (auto simp: getAllServers_def split: bool.splits option.splits prod.splits if_splits)
  moreover have "[] \<notin> set found"
    using assms e read_children_nonempty [of L _ ns]
    by (auto simp: getAllServers_def split: bool.splits option.splits prod.splits if_splits) (metis fst_conv)+
  ultimately show ?thesis using ensure_keeps [OF e] by simp
qed

lemma updateServers_keeps:
  assumes "updateServersFromZk L ns s w = (s', w')"
  shows "keeps_wf s s' \<and> [] \<notin> set (servers s')"
  using assms by (auto simp: updateServersFromZk_def split: prod.splits dest!: getAllServers_keeps
      intro: keeps_trans [OF _ keeps_simple(4)])

lemma deliver_handle: "deliver L r w = (r', w') \<Longrightarrow> zk_handle r' = zk_handle r"
proof -
  have "zk_handle (fold (\<lambda>(type, state). globalWatcher type state) evs r) = zk_handle r" for evs
    by (induction evs arbitrary: r) (auto simp: globalWatcher_def)
  then show "deliver L r w = (r', w') \<Longrightarrow> zk_handle r' = zk_handle r"
    by (auto simp: deliver_def split: option.splits prod.splits)
qed

lemma registerService_handle: "Registry_registerService L r name a w = (ok, r', w') \<Longrightarrow> zk_handle r' = zk_handle r"
  by (auto simp: Registry_registerService_def Let_def split: prod.splits if_splits bool.splits dest: deliver_handle)

lemma register_nodes_handle: "register_nodes L name nodes b r w = (ok, r', w') \<Longrightarrow> zk_handle r' = zk_handle r"
  by (induction nodes arbitrary: b r w) (auto split: prod.splits dest!: registerService_handle)

lemma createServiceRegistry_keeps:
  "createServiceRegistryIfNeeded L s w = (ok, s', w') \<Longrightarrow> keeps_wf s s' \<and> (ok \<longrightarrow> registry_ptr s' \<noteq> None)"
  by (auto simp: createServiceRegistryIfNeeded_def isConnected_def split: prod.splits sum.splits if_splits
      intro: keeps_simple keeps_registry)

lemma getOrCreate_keeps:
  "getOrCreateServiceRegistry L s w = (r, s', w') \<Longrightarrow> keeps_wf s s' \<and> registry_ptr s' = r \<or> r = None \<and> keeps_wf s s'"
  by (auto simp: getOrCreateServiceRegistry_def split: option.splits prod.splits if_splits
      dest!: createServiceRegistry_keeps)

text \<open>Putting back a registry on which nothing but the connected flag has changed.\<close>

lemma keeps_put_back:
  assumes "keeps_wf s s'" and "registry_ptr s' = Some r" and "zk_handle r' = zk_handle r"
  shows "keeps_wf s (s'\<lparr>registry_ptr := Some r'\<rparr>)"
  using assms by (auto simp: keeps_wf_def same_address_def content_wf_def)

lemma getOrCreate_put_back:
  assumes "getOrCreateServiceRegistry L s w = (r, s1, w1)"
  shows "keeps_wf s s1" and "r = Some x \<Longrightarrow> zk_handle x' = zk_handle x \<Longrightarrow> keeps_wf s (s1\<lparr>registry_ptr := Some x'\<rparr>)"
  using getOrCreate_keeps [OF assms] keeps_put_back by auto

lemma registration_keeps:
  shows "Handler_registerService L name a s w = (ok, s', w') \<Longrightarrow> keeps_wf s s' \<and> (ok \<longrightarrow> hasServiceRegistry s')"
    and "registerServicesFromConfig L config s w = (ok, s', w') \<Longrightarrow> keeps_wf s s'"
proof -
  obtain r s1 w1 where g: "getOrCreateServiceRegistry L s w = (r, s1, w1)" by (metis prod_cases3)
  note keeps = getOrCreate_put_back [OF g]
  show "keeps_wf s s' \<and> (ok \<longrightarrow> hasServiceRegistry s')" if h: "Handler_registerService L name a s w = (ok, s', w')"
  proof (cases r)
    case (Some x)
    obtain ok' x' w2 where "Registry_registerService L x name a w1 = (ok', x', w2)" by (metis prod_cases3)
    with keeps(2) [OF Some registerService_handle [OF this]] h g Some show ?thesis
      by (simp add: Handler_registerService_def hasServiceRegistry_def) auto
  qed (use h g keeps(1) in \<open>simp add: Handler_registerService_def\<close>)
  show "keeps_wf s s'" if h: "registerServicesFromConfig L config s w = (ok, s', w')"
  proof (cases r)
    case (Some x)
    have "keeps_wf s (s1\<lparr>registry_ptr := Some x'\<rparr>)"
      if "register_nodes L name nodes True x w1 = (ok', x', w2)" for name nodes ok' x' w2
      by (rule keeps(2) [OF Some register_nodes_handle [OF that]])
    with h g Some show ?thesis
      by (auto simp: registerServicesFromConfig_def split: option.splits prod.splits if_splits)
  qed (use h g keeps(1) in \<open>auto simp: registerServicesFromConfig_def split: option.splits if_splits\<close>)
qed

lemma setters_wf:
  "handler_wf s \<Longrightarrow> handler_wf (setZkHost host s)" "handler_wf s \<Longrightarrow> handler_wf (setZkPort port s)"
  "handler_wf s \<Longrightarrow> handler_wf (setZkNamespace ns s)" "handler_wf s \<Longrightarrow> handler_wf (setZkRetryInterval i s)"
  by (auto simp: wf_defs setZkHost_def setZkPort_def setZkNamespace_def setZkRetryInterval_def)

lemma apply_settings_wf:
  assumes "apply_settings J config s = (ok, s')"
  shows "(handler_wf s \<longrightarrow> handler_wf s') \<and> (ok \<longrightarrow> content_wf s \<longrightarrow> handler_wf s')"
  using assms by (auto simp: apply_settings_def wf_defs setZkHost_def setZkPort_def setZkNamespace_def
      setZkRetryInterval_def Let_def split: option.splits if_splits)

lemma init_wf:
  assumes "initZkConnHandler L J config s w = (ok, s', w')"
  shows "(handler_wf s \<longrightarrow> handler_wf s') \<and> (ok \<longrightarrow> content_wf s \<longrightarrow> handler_wf s' \<and> zk_client s' \<noteq> None)"
proof -
  obtain ok1 s1 where a: "apply_settings J config s = (ok1, s1)" by fastforce
  note wf1 = apply_settings_wf [OF a]
  show ?thesis
  proof (cases "json_empty J config \<or> \<not> ok1")
    case True
    with assms a wf1 show ?thesis
      by (auto simp: initZkConnHandler_def split: if_splits prod.splits dest!: cleanup_keeps intro: keeps_handler_wf)
  next
    case False
    obtain ok2 s2 w2 where e: "ensureZkConnection L s1 w = (ok2, s2, w2)" by (metis prod_cases3)
    from False assms a e have "s' = s2" "ok \<longrightarrow> zk_client s2 \<noteq> None"
      by (auto simp: initZkConnHandler_def split: if_splits)
    with False wf1 keeps_handler_wf [OF ensure_keeps [OF e]] show ?thesis by auto
  qed
qed

section \<open>The invariant of the steps\<close>

definition handler_inv :: "(nat \<Rightarrow> int \<Rightarrow> int) \<Rightarrow> 'z handler_state \<Rightarrow> bool" where
  "handler_inv rng = (\<lambda>(s, lb, w). handler_wf s \<and> (\<forall>b. lb = Some b \<longrightarrow> lb_inv rng b))"

definition handler_ready :: "'z zk_lib \<Rightarrow> 'j json_ops \<Rightarrow> 'z handler_state \<Rightarrow> bool" where
  "handler_ready L J = (\<lambda>(s, lb, w). lb = None \<and> (\<exists>config port interval w0.
     initZkConnHandler L J config (new_handler port interval) w0 = (True, s, w)))"

lemma getServer_law:
  assumes "draws_in_range rng" and "handler_inv rng (s, lb, w)" and "getServer L rng ns s lb w = (server, s', lb', w')"
  shows "handler_inv rng (s', lb', w') \<and> (server = [] \<longleftrightarrow> servers s' = []) \<and> (server \<noteq> [] \<longrightarrow> server \<in> set (servers s'))"
proof -
  obtain s1 w1 where u: "updateServersFromZk L ns s w = (s1, w1)" by fastforce
  with assms(3) have s': "s' = s1" by (auto simp: getServer_def split: if_splits prod.splits)
  from updateServers_keeps [OF u] assms(2) have wf: "handler_wf s1" "[] \<notin> set (servers s1)"
    by (auto simp: handler_inv_def intro: keeps_handler_wf)
  from assms(2) have lb: "\<forall>b. lb = Some b \<longrightarrow> lb_inv rng b" by (simp add: handler_inv_def)
  show ?thesis
  proof (cases "servers s1 = []")
    case True
    with assms(3) u wf lb show ?thesis by (auto simp: getServer_def handler_inv_def)
  next
    case False
    with selectServer_law [OF assms(1) lb wf(2)] assms(3) u wf s' show ?thesis
      by (auto simp: getServer_def handler_inv_def split: prod.splits)
  qed
qed

lemma handler_step_inv:
  assumes "draws_in_range rng" and "handler_step L J rng p q" and "handler_inv rng p"
  shows "handler_inv rng q"
  using assms(2,3)
proof cases
  case (h_get ns s lb w server s' lb' w')
  with getServer_law [OF assms(1) _ h_get(3)] assms(3) show ?thesis by simp
qed (auto simp: handler_inv_def intro: setters_wf keeps_handler_wf
    dest!: init_wf ensure_keeps getAllServers_keeps getOrCreate_keeps registration_keeps cleanup_keeps)

interpretation handler: invariant_system "handler_ready L J"
    "\<lambda>p q. draws_in_range rng \<and> handler_step L J rng p q" "handler_inv rng" for L J rng
proof
  fix p assume "handler_ready L J p"
  then obtain config port interval w0 s w where p: "p = (s, None, w)"
    and i: "initZkConnHandler L J config (new_handler port interval) w0 = (True, s, w)"
    by (auto simp: handler_ready_def)
  have "content_wf (new_handler port interval)" by (simp add: content_wf_def new_handler_def)
  with init_wf [OF i] p show "handler_inv rng p" by (simp add: handler_inv_def)
qed (blast intro: handler_step_inv)

section \<open>Property\<close>

text \<open>
  C34. The handler stays well formed: once \<open>initZkConnHandler\<close> has returned true on a handler as the
  constructor leaves it, whatever operations follow, the port is a TCP port, the host is not
  empty, a registry that is in place has its session handle and the list of servers has no empty
  string. So the address of every later session is meaningful, and \<open>getServer\<close> returns the empty
  string exactly when it found no server, otherwise one of the servers it found.
\<close>

theorem handler_well_formed:
  assumes "draws_in_range rng"
    and "initZkConnHandler L J config (new_handler port interval) w0 = (True, s0, w1)"
    and "steps (handler_step L J rng) (s0, None, w1) (s, lb, w)"
  shows "0 < zk_port s \<and> zk_port s < 2 ^ 16 \<and> zk_host s \<noteq> []
     \<and> (\<forall>r. registry_ptr s = Some r \<longrightarrow> zk_handle r \<noteq> None) \<and> [] \<notin> set (servers s)
     \<and> (case getServer L rng ns s lb w of (server, s', lb', w') \<Rightarrow>
          (server = [] \<longleftrightarrow> servers s' = []) \<and> (server \<noteq> [] \<longrightarrow> server \<in> set (servers s')))"
proof -
  have "handler_ready L J (s0, None, w1)" using assms(2) by (auto simp: handler_ready_def)
  then have "handler_inv rng (s0, None, w1)" by (rule handler.inv_init)
  then have inv: "handler_inv rng (s, lb, w)"
    by (rule steps_stable [OF assms(3)]) (rule handler_step_inv [OF assms(1)])
  then have "handler_wf s" by (simp add: handler_inv_def)
  then have wf: "0 < zk_port s" "zk_port s < 2 ^ 16" "zk_host s \<noteq> []" "\<forall>r. registry_ptr s = Some r \<longrightarrow> zk_handle r \<noteq> None"
    "[] \<notin> set (servers s)" unfolding wf_defs by blast+
  obtain server s' lb' w' where g: "getServer L rng ns s lb w = (server, s', lb', w')" by (rule prod_cases4)
  from getServer_law [OF assms(1) inv g] wf show ?thesis unfolding g prod.case by blast
qed

definition sample_settings :: sample_json where
  "sample_settings = SObj [(str ''zk_host'', SStr []), (str ''zk_port'', SInt 70000)]"

lemma sample_settings_applied:
  "\<exists>s. initZkConnHandler sample_zk sample_ops sample_settings (new_handler 0 0) [] = (True, s, [])
     \<and> zk_host s = str ''localhost'' \<and> zk_port s = 2181"
  by (simp add: initZkConnHandler_def apply_settings_def sample_settings_def sample_ops_def str_def new_handler_def
      setZkHost_def setZkPort_def setZkNamespace_def setZkRetryInterval_def Let_def ensureZkConnection_def sample_zk_def
      max_retries_def numeral_3_eq_3)

theorem handler_well_formed_witness:
  "\<exists>s. initZkConnHandler sample_zk sample_ops sample_settings (new_handler 0 0) [] = (True, s, [])
     \<and> 0 < zk_port (setZkPort 99999 s) \<and> zk_port (setZkPort 99999 s) < 2 ^ 16"
proof -
  from sample_settings_applied obtain s where
    i: "initZkConnHandler sample_zk sample_ops sample_settings (new_handler 0 0) [] = (True, s, [])" by blast
  have "steps (handler_step sample_zk sample_ops (\<lambda>k m. 0)) (s, None, []) (setZkPort 99999 s, None, [])"
    by (intro steps_single h_port)
  from handler_well_formed [OF _ i this, of "[]"] i show ?thesis by (auto simp: draws_in_range_def)
qed

end
