(* ===== verification/Serializer.thy ===== *)
theory Serializer
  imports Json_Interface
begin

text \<open>
  \<open>rpc_src/serializer\<close>: \<open>JSONSerializer\<close>, \<open>ProtobufSerializer\<close> and \<open>SerializerManager\<close>, which turn the
  argument of a call into the payload of a request and the result data of a response into the
  caller's variable. Both libraries are parameters. The template parameter is resolved at
  compile time; here it is the constructor of the value.
\<close>

datatype serialize_type = JSON | PROTOBUF

record 'm proto_lib =
  SerializeAsString :: "'m \<Rightarrow> bytes"
  ParseFromString :: "bytes \<Rightarrow> 'm option"

datatype ('j, 'm) message = Json 'j | Proto 'm

section \<open>The two formats\<close>

definition JSONSerializer_serialize :: "'j json_ops \<Rightarrow> 'j \<Rightarrow> bytes" where
  "JSONSerializer_serialize J data = (case json_dump J data of None \<Rightarrow> [] | Some s \<Rightarrow> s)"

definition JSONSerializer_deserialize :: "'j json_ops \<Rightarrow> bytes \<Rightarrow> 'j \<Rightarrow> bool \<times> 'j" where
  "JSONSerializer_deserialize J buffer data =
     (case json_parse J buffer of None \<Rightarrow> (False, data) | Some j \<Rightarrow> (True, j))"

definition ProtobufSerializer_serialize :: "'m proto_lib \<Rightarrow> 'm \<Rightarrow> bytes" where
  "ProtobufSerializer_serialize M data = SerializeAsString M data"

definition ProtobufSerializer_deserialize :: "'m proto_lib \<Rightarrow> bytes \<Rightarrow> 'm \<Rightarrow> bool \<times> 'm" where
  "ProtobufSerializer_deserialize M buffer data =
     (case ParseFromString M buffer of None \<Rightarrow> (False, data) | Some new_data \<Rightarrow> (True, new_data))"

section \<open>The manager\<close>

fun Manager_serialize :: "'j json_ops \<Rightarrow> 'm proto_lib \<Rightarrow> ('j, 'm) message \<Rightarrow> serialize_type \<Rightarrow> bytes" where
  "Manager_serialize J M (Json j) JSON = JSONSerializer_serialize J j"
| "Manager_serialize J M (Proto m) JSON = []"
| "Manager_serialize J M (Proto m) PROTOBUF = ProtobufSerializer_serialize M m"
| "Manager_serialize J M (Json j) PROTOBUF = []"

fun Manager_deserialize :: "'j json_ops \<Rightarrow> 'm proto_lib \<Rightarrow> bytes \<Rightarrow> ('j, 'm) message \<Rightarrow> serialize_type
    \<Rightarrow> bool \<times> ('j, 'm) message" where
  "Manager_deserialize J M buffer (Json j) JSON =
     (case JSONSerializer_deserialize J buffer j of (ok, j) \<Rightarrow> (ok, Json j))"
| "Manager_deserialize J M buffer (Proto m) JSON = (False, Proto m)"
| "Manager_deserialize J M buffer (Proto m) PROTOBUF =
     (case ProtobufSerializer_deserialize M buffer m of (ok, m) \<Rightarrow> (ok, Proto m))"
| "Manager_deserialize J M buffer (Json j) PROTOBUF = (False, Json j)"

section \<open>The contract of a format\<close>

text \<open>
  What a call relies on: a value that is \<open>good\<close> comes back from its serialization, and a buffer
  that is refused leaves the variable as it was.
\<close>

locale value_format =
  fixes ser :: "'v \<Rightarrow> bytes" and deser :: "bytes \<Rightarrow> 'v \<Rightarrow> bool \<times> 'v" and good :: "'v \<Rightarrow> bool" and compat :: "'v \<Rightarrow> 'v \<Rightarrow> bool"
  assumes reads_back: "good v \<Longrightarrow> compat v old \<Longrightarrow> deser (ser v) old = (True, v)"
    and refused: "deser b old = (False, x) \<Longrightarrow> x = old"
begin

lemma ser_inj:
  assumes "good v" "good v'" "compat v old" "compat v' old" "ser v = ser v'"
  shows "v = v'"
proof -
  have "(True, v) = deser (ser v) old" using reads_back [OF assms(1,3)] by (rule sym)
  also have "\<dots> = deser (ser v') old" by (simp only: assms(5))
  also have "\<dots> = (True, v')" by (rule reads_back [OF assms(2,4)])
  finally show ?thesis by (rule prod.inject [THEN iffD1, THEN conjunct2])
qed

end

definition json_good :: "'j json_ops \<Rightarrow> 'j \<Rightarrow> bool" where
  "json_good J j \<longleftrightarrow> (\<exists>s. json_dump J j = Some s \<and> json_parse J s = Some j)"

definition proto_good :: "'m proto_lib \<Rightarrow> 'm \<Rightarrow> bool" where
  "proto_good M m \<longleftrightarrow> ParseFromString M (SerializeAsString M m) = Some m"

interpretation json_format: value_format "JSONSerializer_serialize J" "JSONSerializer_deserialize J" "json_good J" "\<lambda>_ _. True"
  for J
  by unfold_locales
     (auto simp: JSONSerializer_serialize_def JSONSerializer_deserialize_def json_good_def split: option.splits)

interpretation proto_format: value_format "ProtobufSerializer_serialize M" "ProtobufSerializer_deserialize M"
    "proto_good M" "\<lambda>_ _. True"
  for M
  by unfold_locales
     (auto simp: ProtobufSerializer_serialize_def ProtobufSerializer_deserialize_def proto_good_def split: option.splits)

text \<open>The manager honours the contract for the values whose type fits the requested format.\<close>

fun fits_type :: "('j, 'm) message \<Rightarrow> serialize_type \<Rightarrow> bool" where
  "fits_type (Json j) ty \<longleftrightarrow> ty = JSON"
| "fits_type (Proto m) ty \<longleftrightarrow> ty = PROTOBUF"

fun message_good :: "'j json_ops \<Rightarrow> 'm proto_lib \<Rightarrow> ('j, 'm) message \<Rightarrow> bool" where
  "message_good J M (Json j) \<longleftrightarrow> json_good J j"
| "message_good J M (Proto m) \<longleftrightarrow> proto_good M m"

interpretation manager: value_format "\<lambda>v. Manager_serialize J M v ty" "\<lambda>b old. Manager_deserialize J M b old ty"
    "\<lambda>v. message_good J M v \<and> fits_type v ty" "\<lambda>v old. fits_type old ty"
  for J M ty
proof
  fix v old :: "('a, 'b) message"
  assume "message_good J M v \<and> fits_type v ty" "fits_type old ty"
  then show "Manager_deserialize J M (Manager_serialize J M v ty) old ty = (True, v)"
    by (cases v; cases old) (auto simp: json_format.reads_back proto_format.reads_back)
next
  fix b and old x :: "('a, 'b) message"
  assume "Manager_deserialize J M b old ty = (False, x)"
  then show "x = old"
    by (cases old; cases ty) (auto split: prod.splits dest: json_format.refused proto_format.refused)
qed

lemma mismatch_refused:
  "\<not> fits_type v ty \<Longrightarrow> Manager_serialize J M v ty = [] \<and> Manager_deserialize J M b v ty = (False, v)"
  by (cases v; cases ty) auto

section \<open>Properties\<close>

text \<open>
  A value survives the trip through a payload: whatever format is asked for, a JSON value or
  protobuf message that its library reads back is deserialized to itself into a variable of the
  fitting type; and if value and format do not fit, serializing gives the empty payload and
  deserializing fails, leaving the variable unchanged.
\<close>

theorem serializer_roundtrip:
  "(message_good J M v \<and> fits_type v ty \<and> fits_type old ty \<longrightarrow>
      Manager_deserialize J M (Manager_serialize J M v ty) old ty = (True, v))
   \<and> (\<not> fits_type v ty \<longrightarrow> Manager_serialize J M v ty = [] \<and> Manager_deserialize J M b v ty = (False, v))"
  using manager.reads_back [of J M v ty old] mismatch_refused [of v ty J M b] by blast

definition sample_proto :: "nat proto_lib" where
  "sample_proto = \<lparr>SerializeAsString = (\<lambda>n. replicate n 0), ParseFromString = (\<lambda>b. Some (length b))\<rparr>"

theorem serializer_roundtrip_witness:
  "Manager_deserialize sample_ops sample_proto (Manager_serialize sample_ops sample_proto (Proto 3) PROTOBUF) (Proto 7) PROTOBUF
      = (True, Proto 3)
   \<and> Manager_serialize sample_ops sample_proto (Proto 3) JSON = []"
  using serializer_roundtrip [of sample_ops sample_proto "Proto 3" PROTOBUF "Proto 7"]
    serializer_roundtrip [of sample_ops sample_proto "Proto 3" JSON]
  by (simp add: proto_good_def sample_proto_def)

end
