(* ===== verification/Rpc_Client.thy ===== *)
theory Rpc_Client
  imports Message_Cycle Load_Config Serializer Inet
begin

text \<open>
  \<open>rpc_src/core/rpc_client.h\<close> and \<open>rpc_client.cpp\<close>: the client. It looks a server up in ZooKeeper,
  connects, and makes one call at a time on the connection, under its mutex. The kernel's
  answers are arguments; its table of sockets, the ZooKeeper handler and the load balancer, which
  \<open>Connect\<close> goes through, are part of the state.
\<close>

record 'z rpc_client =
  c_server_ip :: bytes
  c_server_port :: int
  c_timeout_ms :: int
  c_retry_times :: int
  c_namespace :: bytes
  connection_ptr :: "connection option"
  c_sequence :: u32
  c_connected :: bool
  c_kernel :: kernel
  c_zk :: zk_handler
  c_balancer :: "load_balancer option"
  c_world :: 'z

definition new_client :: "kernel \<Rightarrow> zk_handler \<Rightarrow> load_balancer option \<Rightarrow> 'z \<Rightarrow> 'z rpc_client" where
  "new_client k z lb w = \<lparr>c_server_ip = [], c_server_port = 0, c_timeout_ms = 3000, c_retry_times = 3,
     c_namespace = [], connection_ptr = None, c_sequence = 0, c_connected = False, c_kernel = k, c_zk = z,
     c_balancer = lb, c_world = w\<rparr>"

section \<open>Connecting\<close>

text \<open>What \<open>socket\<close> and \<open>connect\<close> answer in one attempt.\<close>

record attempt =
  att_socket :: int
  att_connect :: bool

text \<open>The destructor of a connection closes its descriptor; none, if there is no object.\<close>

definition destroy_connection :: "connection option \<Rightarrow> kernel \<Rightarrow> kernel" where
  "destroy_connection p k = (case p of None \<Rightarrow> k | Some c \<Rightarrow> if fd c \<ge> 0 then k_close (fd c) k else k)"

definition initSocket :: "attempt \<Rightarrow> 'z rpc_client \<Rightarrow> bool \<times> 'z rpc_client" where
  "initSocket a s =
     (let f = att_socket a in
      if f < 0 then (False, s)
      else let k = k_socket f (c_kernel s) in
        case inet_pton (c_server_ip s) of
          None \<Rightarrow> (False, s\<lparr>c_kernel := k_close f k\<rparr>)
        | Some addr \<Rightarrow>
            if \<not> att_connect a then (False, s\<lparr>c_kernel := k_close f k\<rparr>)
            else let k = k\<lparr>k_peer := (k_peer k)(f \<mapsto> (addr, sin_port (c_server_port s)))\<rparr>
                 in (True, s\<lparr>c_kernel := destroy_connection (connection_ptr s) k,
                             connection_ptr := Some (new_connection f)\<rparr>))"

text \<open>
  The address found in ZooKeeper: \<open>None\<close> without a colon, else the part before it and what
  \<open>std::stoi\<close> makes of the rest, which is an exception if it is no number.
\<close>

definition parse_address :: "bytes \<Rightarrow> (bytes \<times> (fault + int)) option" where
  "parse_address server_address =
     (case find_char colon server_address of
        None \<Rightarrow> None
      | Some p \<Rightarrow> Some (take p server_address, stoi (drop (p + 1) server_address)))"

text \<open>
  The loop of \<open>Connect\<close> with \<open>n\<close> attempts left; \<open>env n\<close> is what the kernel answers in the next.
  The result is the value or the exception, with the client in both cases.
\<close>

fun Connect_loop :: "'z zk_lib \<Rightarrow> (nat \<Rightarrow> int \<Rightarrow> int) \<Rightarrow> (nat \<Rightarrow> attempt) \<Rightarrow> nat \<Rightarrow> 'z rpc_client
    \<Rightarrow> (fault + bool) \<times> 'z rpc_client" where
  "Connect_loop L rng env 0 s = (Inr False, s)"
| "Connect_loop L rng env (Suc n) s =
     (case getServer L rng (c_namespace s) (c_zk s) (c_balancer s) (c_world s) of (server_address, z, lb, w) \<Rightarrow>
        let s = s\<lparr>c_zk := z, c_balancer := lb, c_world := w\<rparr> in
        if server_address = [] then Connect_loop L rng env n s
        else case parse_address server_address of
          None \<Rightarrow> Connect_loop L rng env n s
        | Some (ip, parsed) \<Rightarrow>
            let s = s\<lparr>c_server_ip := ip\<rparr> in
            (case parsed of
               Inl e \<Rightarrow> (Inl e, s)
             | Inr port \<Rightarrow>
                 (case initSocket (env n) (s\<lparr>c_server_port := port\<rparr>) of
                    (True, s) \<Rightarrow> (Inr True, s\<lparr>c_connected := True\<rparr>)
                  | (False, s) \<Rightarrow> Connect_loop L rng env n s)))"

definition Connect :: "'z zk_lib \<Rightarrow> (nat \<Rightarrow> int \<Rightarrow> int) \<Rightarrow> (nat \<Rightarrow> attempt) \<Rightarrow> 'z rpc_client
    \<Rightarrow> (fault + bool) \<times> 'z rpc_client" where
  "Connect L rng env s =
     (if c_connected s then (Inr True, s) else Connect_loop L rng env (nat (c_retry_times s)) s)"

definition Disconnect :: "'z rpc_client \<Rightarrow> 'z rpc_client" where
  "Disconnect s = s\<lparr>c_kernel := destroy_connection (connection_ptr s) (c_kernel s), connection_ptr := None,
                    c_connected := False\<rparr>"

text \<open>
  The constructor. The configuration it builds for the ZooKeeper handler is \<open>zk_config\<close>. The result
  is the exception it throws, if any, with the members at that point.
\<close>

definition zk_config :: "'j json_ops \<Rightarrow> client_config \<Rightarrow> 'j option" where
  "zk_config J c =
     (case json_set J (json_null J) (str ''zk_host'') (cc_zk_host c) of None \<Rightarrow> None
      | Some j \<Rightarrow>
     (case json_set_int J j (str ''zk_port'') (of_int (cc_zk_port c)) of None \<Rightarrow> None
      | Some j \<Rightarrow> json_set J j (str ''zk_namespace'') (cc_zk_namespace c)))"

definition RpcClient :: "'z zk_lib \<Rightarrow> 'j json_ops \<Rightarrow> (nat \<Rightarrow> int \<Rightarrow> int) \<Rightarrow> (nat \<Rightarrow> attempt) \<Rightarrow> bytes option
    \<Rightarrow> client_config \<Rightarrow> 'z rpc_client \<Rightarrow> fault option \<times> 'z rpc_client" where
  "RpcClient L J rng env file cfg s =
     (case InitRpcClientConfig J file cfg of
        (Inl e, _) \<Rightarrow> (Some e, s)
      | (Inr ok, cfg) \<Rightarrow>
          if \<not> ok then (Some Runtime_error, s)
          else let s = s\<lparr>c_timeout_ms := cc_timeout_ms cfg, c_retry_times := cc_retry_times cfg,
                        c_namespace := cc_zk_namespace cfg\<rparr> in
            (case zk_config J cfg of None \<Rightarrow> (Some Json_exception, s)
             | Some j \<Rightarrow>
                 (case initZkConnHandler L J j (c_zk s) (c_world s) of (ok, z, w) \<Rightarrow>
                    let s = s\<lparr>c_zk := z, c_world := w\<rparr> in
                    if \<not> ok then (Some Runtime_error, s)
                    else (case Connect L rng env s of
                            (Inl e, s) \<Rightarrow> (Some e, s)
                          | (Inr connected, s) \<Rightarrow> (if \<not> connected then Some Runtime_error else None, s)))))"

section \<open>Reading the response\<close>

lemma ReadWithTimeout_consumes:
  "ReadWithTimeout ss rs c = Done (True, c', ss', rs') \<Longrightarrow> length ss' < length ss"
proof (induction ss)
  case Nil
  then show ?case by (subst (asm) ReadWithTimeout.simps) (simp split: if_splits)
next
  case (Cons x ss)
  then show ?case
    by (subst (asm) ReadWithTimeout.simps) (cases x; auto split: if_splits run.splits)
qed

text \<open>
  The loop of \<open>ReadResponse\<close>: read, then try to cut a frame, until there is one or an error.
  \<open>None\<close>: the read failed or timed out. An exception leaves the connection as \<open>ExtractFrame\<close> left
  it, the frame erased from the buffer (\<open>ExtractFrame_throws\<close>).
\<close>

definition frame_erased :: "connection \<Rightarrow> connection" where
  "frame_erased c = c\<lparr>read_buffer := drop (4 + announced (read_buffer c)) (read_buffer c)\<rparr>"

function await_frame :: "zstd_lib \<Rightarrow> nat \<Rightarrow> select_result list \<Rightarrow> read_result list \<Rightarrow> connection
    \<Rightarrow> ((fault + (frame_status \<times> bytes) option) \<times> connection) run" where
  "await_frame z mem ss rs c =
     (case ReadWithTimeout ss rs c of
        Blocked \<Rightarrow> Blocked
      | Fault e \<Rightarrow> Fault e
      | Done (False, c', _, _) \<Rightarrow> Done (Inr None, c')
      | Done (True, c', ss', rs') \<Rightarrow>
          (case ExtractFrame z mem c' [] of
             Inl e \<Rightarrow> if thrown e then Done (Inl e, frame_erased c') else Fault e
           | Inr (kIncomplete, _, c'') \<Rightarrow> await_frame z mem ss' rs' c''
           | Inr (status, frame, c'') \<Rightarrow> Done (Inr (Some (status, frame)), c'')))"
  by pat_completeness auto
termination
  by (relation "measure (\<lambda>(z, mem, ss, rs, c). length ss)") (auto dest: ReadWithTimeout_consumes)

declare await_frame.simps [simp del]

definition ReadResponse :: "'j json_ops \<Rightarrow> 'm proto_lib \<Rightarrow> platform \<Rightarrow> serialize_type \<Rightarrow> select_result list
    \<Rightarrow> read_result list \<Rightarrow> ('j, 'm) message \<Rightarrow> 'z rpc_client
    \<Rightarrow> ((fault + bool) \<times> ('j, 'm) message \<times> 'z rpc_client) run" where
  "ReadResponse J M P ty ss rs response s =
     (case connection_ptr s of
        None \<Rightarrow> Fault Bad_access
      | Some c \<Rightarrow>
          (case await_frame (zlib P) (memory P) ss rs c of
             Blocked \<Rightarrow> Blocked
           | Fault e \<Rightarrow> Fault e
           | Done (Inl e, c) \<Rightarrow> Done (Inl e, response, s\<lparr>connection_ptr := Some c\<rparr>)
           | Done (Inr None, c) \<Rightarrow> Done (Inr False, response, s\<lparr>connection_ptr := Some c, c_connected := False\<rparr>)
           | Done (Inr (Some (status, frame)), c) \<Rightarrow>
               if status = kError
               then Done (Inr False, response, s\<lparr>connection_ptr := Some c, c_connected := False\<rparr>)
               else let s = s\<lparr>connection_ptr := Some c\<rparr> in
                 (case RpcResponse_Deserialize frame new_response of
                    Inl e \<Rightarrow> if thrown e then Done (Inl e, response, s) else Fault e
                  | Inr (False, _) \<Rightarrow> Done (Inr False, response, s)
                  | Inr (True, r) \<Rightarrow>
                      if response_code r \<noteq> error_code_value SUCCESS then Done (Inr False, response, s)
                      else (case Manager_deserialize J M (result_data r) response ty of
                              (ok, v) \<Rightarrow> Done (Inr ok, v, s)))))"

section \<open>A call\<close>

definition GenerateSequenceId :: "'z rpc_client \<Rightarrow> u32 \<times> 'z rpc_client" where
  "GenerateSequenceId s = (c_sequence s + 1, s\<lparr>c_sequence := c_sequence s + 1\<rparr>)"

text \<open>
  What the world answers during a call: the attempts to connect, the random bytes of the
  encryption, the results of \<open>write\<close>, \<open>select\<close> and \<open>read\<close>.
\<close>

record call_env =
  env_attempts :: "nat \<Rightarrow> attempt"
  env_random :: "nat \<Rightarrow> int"
  env_writes :: "write_result list"
  env_selects :: "select_result list"
  env_reads :: "read_result list"

text \<open>
  The result is the value of \<open>Call\<close> or the exception that leaves it, the response variable, the
  bytes sent and the client. An exception of \<open>Write\<close> comes before it has sent anything.
\<close>

definition Call :: "'z zk_lib \<Rightarrow> (nat \<Rightarrow> int \<Rightarrow> int) \<Rightarrow> 'j json_ops \<Rightarrow> 'm proto_lib \<Rightarrow> platform \<Rightarrow> call_env
    \<Rightarrow> bytes \<Rightarrow> bytes \<Rightarrow> ('j, 'm) message \<Rightarrow> serialize_type \<Rightarrow> ('j, 'm) message \<Rightarrow> 'z rpc_client
    \<Rightarrow> ((fault + bool) \<times> ('j, 'm) message \<times> bytes \<times> 'z rpc_client) run" where
  "Call L rng J M P E sname mname request ty response s =
     (case (if c_connected s then (Inr True, s) else Connect L rng (env_attempts E) s) of
        (Inl e, s) \<Rightarrow> Done (Inl e, response, [], s)
      | (Inr False, s) \<Rightarrow> Done (Inr False, response, [], s)
      | (Inr True, s) \<Rightarrow>
          let bytes = Manager_serialize J M request ty in
          if bytes = [] then Done (Inr False, response, [], s)
          else (case GenerateSequenceId s of (seq, s) \<Rightarrow>
            let rpc_request = new_request\<lparr>service_name := sname, method_name := mname, payload := bytes,
                                          sequence_id := seq\<rparr> in
            (case connection_ptr s of
               None \<Rightarrow> Fault Bad_access
             | Some c \<Rightarrow>
                 (case Write_request (zlib P) (memory P) (env_random E) (env_writes E) rpc_request c of
                    Blocked \<Rightarrow> Blocked
                  | Fault e \<Rightarrow> if thrown e then Done (Inl e, response, [], s) else Fault e
                  | Done (False, out, c, _) \<Rightarrow>
                      Done (Inr False, response, out, s\<lparr>connection_ptr := Some c, c_connected := False\<rparr>)
                  | Done (True, out, c, _) \<Rightarrow>
                      (case ReadResponse J M P ty (env_selects E) (env_reads E) response
                              (s\<lparr>connection_ptr := Some c\<rparr>) of
                         Blocked \<Rightarrow> Blocked
                       | Fault e \<Rightarrow> Fault e
                       | Done (res, v, s) \<Rightarrow> Done (res, v, out, s))))))"

section \<open>Receiving a response in pieces\<close>

text \<open>
  On the client's blocking socket a chunk that waits is read piece by piece; the call comes back
  after it unless its length is a multiple of 4096, when \<open>Read\<close> would wait for more.
\<close>

lemma ReadWithTimeout_chunk:
  assumes "cstate c = CONNECTED" "0 \<le> fd c" "fd c < FD_SETSIZE" "\<not> READ_CHUNK dvd length chunk"
    and "length (read_buffer c @ chunk) \<le> MAX_BUFFER_SIZE"
  shows "ReadWithTimeout (Sel_ready # ss) (map Rd (pieces chunk) @ rs) c
      = Done (True, c\<lparr>read_buffer := read_buffer c @ chunk\<rparr>, ss, rs)"
  using assms by (subst ReadWithTimeout.simps) (simp add: Read_def Read_loop_pieces Let_def)

definition chunk_reads :: "bytes list \<Rightarrow> read_result list" where
  "chunk_reads chunks = concat (map (\<lambda>chunk. map Rd (pieces chunk)) chunks)"

lemma chunk_reads_simps [simp]:
  "chunk_reads [] = []" "chunk_reads (chunk # chunks) = map Rd (pieces chunk) @ chunk_reads chunks"
  by (simp_all add: chunk_reads_def)

lemma cut_before_end:
  assumes "frame_cut z mem (b @ s) = Got d []" and "s \<noteq> []"
  shows "frame_cut z mem b = Need"
proof (cases "frame_cut z mem b")
  case (Got f r)
  with framing.got_append [OF this, of s] assms show ?thesis by simp
next
  case Bad
  with framing.bad_append [OF this, of s] assms show ?thesis by simp
qed

text \<open>However the bytes of one frame are cut into chunks, the loop returns it after the last.\<close>

lemma await_chunks:
  assumes "frame_cut z mem (read_buffer c @ concat chunks) = Got d []" and "chunks \<noteq> []"
    and "cstate c = CONNECTED" "0 \<le> fd c" "fd c < FD_SETSIZE"
    and "\<forall>chunk\<in>set chunks. \<not> READ_CHUNK dvd length chunk"
    and "length (read_buffer c @ concat chunks) \<le> MAX_BUFFER_SIZE"
  shows "await_frame z mem (replicate (length chunks) Sel_ready) (chunk_reads chunks) c
      = Done (Inr (Some (kComplete, d)), c\<lparr>read_buffer := []\<rparr>)"
  using assms
proof (induction chunks arbitrary: c)
  case (Cons chunk chunks)
  let ?c = "c\<lparr>read_buffer := read_buffer c @ chunk\<rparr>"
  have rd: "ReadWithTimeout (Sel_ready # replicate (length chunks) Sel_ready) (map Rd (pieces chunk) @ chunk_reads chunks) c
      = Done (True, ?c, replicate (length chunks) Sel_ready, chunk_reads chunks)"
    using Cons.prems by (intro ReadWithTimeout_chunk) simp_all
  show ?case
  proof (cases "chunks = []")
    case True
    with Cons.prems(1) have "frame_cut z mem (read_buffer ?c) = Got d []" by simp
    from ExtractFrame_Got [OF this, of "[]"] rd True show ?thesis
      by (subst await_frame.simps) simp
  next
    case False
    have all: "frame_cut z mem ((read_buffer c @ chunk) @ concat chunks) = Got d []"
      using Cons.prems(1) by simp
    have "concat chunks \<noteq> []" using False Cons.prems(6) by (cases chunks) auto
    from cut_before_end [OF all this] have "frame_cut z mem (read_buffer ?c) = Need" by simp
    from ExtractFrame_Need [OF this, of "[]"] rd
    have "await_frame z mem (replicate (length (chunk # chunks)) Sel_ready) (chunk_reads (chunk # chunks)) c
        = await_frame z mem (replicate (length chunks) Sel_ready) (chunk_reads chunks) ?c"
      by (subst await_frame.simps) simp
    also have "\<dots> = Done (Inr (Some (kComplete, d)), ?c\<lparr>read_buffer := []\<rparr>)"
      by (rule Cons.IH) (use Cons.prems all False in simp_all)
    finally show ?thesis by simp
  qed
qed simp

text \<open>The bytes of a response on the wire, as a server's \<open>Write(response)\<close> puts them there.\<close>

definition sent_by_server :: "platform \<Rightarrow> rpc_response \<Rightarrow> bytes \<Rightarrow> bool" where
  "sent_by_server P r wire \<longleftrightarrow> response_fits (memory P) r \<and> fits_wire (zlib P) (memory P) (length (response_image r))
     \<and> (\<exists>dis ws c c' ws'. Write_response (zlib P) (memory P) dis ws r c = Done (True, wire, c', ws'))"

lemma sent_by_server_sealed:
  assumes "zstd_lossless (zlib P)" and "sent_by_server P r wire"
  shows "\<exists>dis enc. frame_ok MAX_FRAME_SIZE (zlib P) (memory P) (response_image r)
     \<and> sealed (zlib P) (memory P) dis (response_image r) enc \<and> wire = wire_frame enc"
proof -
  from assms(2) have fits: "response_fits (memory P) r" "fits_wire (zlib P) (memory P) (length (response_image r))"
    by (simp_all add: sent_by_server_def)
  note ok = response_frame_ok [OF assms(1) fits]
  from assms(2) obtain dis ws c c' ws' where
    w: "Write_response (zlib P) (memory P) dis ws r c = Done (True, wire, c', ws')"
    by (auto simp: sent_by_server_def)
  from sealed_ex [OF ok] obtain enc where enc: "sealed (zlib P) (memory P) dis (response_image r) enc" by blast
  have "Write ws (wire_frame enc) c = Done (True, wire, c', ws')"
    using w by (simp add: Write_response_def RpcResponse_Serialize_eq [OF fits(1)] WriteFrame_sealed [OF enc])
  then have "wire = wire_frame enc" using Write_Done(2) by blast
  with ok enc show ?thesis by blast
qed

lemma sent_by_server_length:
  assumes "zstd_lossless (zlib P)" and "sent_by_server P r wire" and "frame_ok n (zlib P) (memory P) (response_image r)"
  shows "length wire \<le> 4 + n"
  using sent_by_server_sealed [OF assms(1,2)] sealed_length(1) [OF assms(3)] by auto

lemma sent_by_server_frame:
  assumes "zstd_lossless (zlib P)" and "sent_by_server P r wire"
  shows "frame_cut (zlib P) (memory P) wire = Got (response_image r) []" and "wire \<noteq> []"
    and "RpcResponse_Deserialize (response_image r) old = Inr (True, r)"
proof -
  from sent_by_server_sealed [OF assms] obtain dis enc where
    e: "frame_ok MAX_FRAME_SIZE (zlib P) (memory P) (response_image r)"
      "sealed (zlib P) (memory P) dis (response_image r) enc" "wire = wire_frame enc" by blast
  show "frame_cut (zlib P) (memory P) wire = Got (response_image r) []"
    using frame_cut_sealed [OF e(1,2), of "[]"] by (simp add: e(3))
  show "wire \<noteq> []" by (simp add: e(3) wire_frame_def)
  show "RpcResponse_Deserialize (response_image r) old = Inr (True, r)"
    using assms(2) RpcResponse_Deserialize_image [of "memory P" r] by (simp add: sent_by_server_def)
qed

text \<open>A client between two calls: connected, with nothing left over in its buffer.\<close>

definition ready :: "'z rpc_client \<Rightarrow> bool" where
  "ready s \<longleftrightarrow> c_connected s \<and>
     (\<exists>f. connection_ptr s = Some (new_connection f) \<and> 0 \<le> f \<and> f < FD_SETSIZE)"

text \<open>The pieces in which the bytes may reach the client.\<close>

definition arrives_as :: "bytes \<Rightarrow> bytes list \<Rightarrow> bool" where
  "arrives_as wire chunks \<longleftrightarrow> concat chunks = wire \<and> length wire \<le> MAX_BUFFER_SIZE"

text \<open>The same for the client, whose blocking socket comes back after a read only from such pieces.\<close>

definition arrives_at_client :: "bytes \<Rightarrow> bytes list \<Rightarrow> bool" where
  "arrives_at_client wire chunks \<longleftrightarrow> arrives_as wire chunks \<and> (\<forall>chunk\<in>set chunks. \<not> READ_CHUNK dvd length chunk)"

lemma arrives_whole:
  assumes "wire \<noteq> []" and "length wire < READ_CHUNK"
  shows "arrives_at_client wire [wire]"
  using assms by (auto simp: arrives_at_client_def arrives_as_def guard_simps dest: dvd_imp_le)

lemma ReadResponse_delivers:
  assumes "zstd_lossless (zlib P)" and "sent_by_server P r wire" and "arrives_at_client wire chunks"
    and "connection_ptr s = Some (new_connection f)" "0 \<le> f" "f < FD_SETSIZE"
  shows "ReadResponse J M P ty (replicate (length chunks) Sel_ready) (chunk_reads chunks) response s
     = (if response_code r \<noteq> 0 then Done (Inr False, response, s)
        else case Manager_deserialize J M (result_data r) response ty of (ok, v) \<Rightarrow> Done (Inr ok, v, s))"
proof -
  note sent = sent_by_server_frame [OF assms(1,2)]
  have nonempty: "chunks \<noteq> []" using assms(3) sent(2) by (auto simp: arrives_at_client_def arrives_as_def)
  have "await_frame (zlib P) (memory P) (replicate (length chunks) Sel_ready) (chunk_reads chunks) (new_connection f)
      = Done (Inr (Some (kComplete, response_image r)), (new_connection f)\<lparr>read_buffer := []\<rparr>)"
    using assms(3,5,6) sent(1) nonempty
    by (intro await_chunks) (auto simp: new_connection_def arrives_at_client_def arrives_as_def)
  moreover have "(new_connection f)\<lparr>read_buffer := []\<rparr> = new_connection f" by (simp add: new_connection_def)
  moreover have "s\<lparr>connection_ptr := Some (new_connection f)\<rparr> = s" using assms(4) by (cases s) simp
  ultimately show ?thesis
    using assms(4) sent(3) by (simp add: ReadResponse_def split: prod.split)
qed

definition request_of :: "'z rpc_client \<Rightarrow> bytes \<Rightarrow> bytes \<Rightarrow> bytes \<Rightarrow> rpc_request" where
  "request_of s sname mname data =
     \<lparr>sequence_id = c_sequence s + 1, service_name = sname, method_name = mname, payload = data\<rparr>"

lemma Call_ready:
  assumes "ready s" and "connection_ptr s = Some c" and "Manager_serialize J M request ty \<noteq> []"
  shows "Call L rng J M P E sname mname request ty response s =
     (case Write_request (zlib P) (memory P) (env_random E) (env_writes E)
             (request_of s sname mname (Manager_serialize J M request ty)) c of
        Blocked \<Rightarrow> Blocked
      | Fault e \<Rightarrow> if thrown e then Done (Inl e, response, [], s\<lparr>c_sequence := c_sequence s + 1\<rparr>) else Fault e
      | Done (sent, out, c', _) \<Rightarrow>
          let s = s\<lparr>c_sequence := c_sequence s + 1, connection_ptr := Some c'\<rparr> in
          if sent
          then (case ReadResponse J M P ty (env_selects E) (env_reads E) response s of
                  Blocked \<Rightarrow> Blocked | Fault e \<Rightarrow> Fault e | Done (res, v, s) \<Rightarrow> Done (res, v, out, s))
          else Done (Inr False, response, out, s\<lparr>c_connected := False\<rparr>))"
  using assms
  by (simp add: Call_def ready_def GenerateSequenceId_def request_of_def new_request_def Let_def
      split: run.split bool.split)

text \<open>
  What a call needs from below to send its request: the message fits memory and frame limit, and
  the kernel takes the bytes.
\<close>

definition can_send :: "platform \<Rightarrow> write_result list \<Rightarrow> nat \<Rightarrow> bool" where
  "can_send P ws n \<longleftrightarrow> fits_wire (zlib P) (memory P) n \<and> no_error ws \<and> 4 + MAX_FRAME_SIZE \<le> taken ws"

lemma Write_request_completes:
  assumes "zstd_lossless (zlib P)" "request_fits (memory P) q" "can_send P ws (length (request_image q))"
    and "cstate c = CONNECTED"
  shows "\<exists>wire ws'. Write_request (zlib P) (memory P) dis ws q c = Done (True, wire, c, ws') \<and> sent_by_client P q wire"
proof -
  from assms(3) have w: "fits_wire (zlib P) (memory P) (length (request_image q))" "no_error ws" "4 + MAX_FRAME_SIZE \<le> taken ws"
    by (simp_all add: can_send_def)
  from WriteFrame_completes [OF request_frame_ok [OF assms(1,2) w(1)] assms(4) w(2,3), of dis] obtain enc ws' where
    "WriteFrame (zlib P) (memory P) dis ws (request_image q) c = Done (True, wire_frame enc, c, ws')" by blast
  then have "Write_request (zlib P) (memory P) dis ws q c = Done (True, wire_frame enc, c, ws')"
    by (simp add: Write_request_def RpcRequest_Serialize_eq [OF assms(2)])
  with assms(2) w(1) show ?thesis unfolding sent_by_client_def by blast
qed

lemma Write_response_completes:
  assumes "zstd_lossless (zlib P)" "response_fits (memory P) r" "can_send P ws (length (response_image r))"
    and "cstate c = CONNECTED"
  shows "\<exists>wire ws'. Write_response (zlib P) (memory P) dis ws r c = Done (True, wire, c, ws') \<and> sent_by_server P r wire"
proof -
  from assms(3) have w: "fits_wire (zlib P) (memory P) (length (response_image r))" "no_error ws" "4 + MAX_FRAME_SIZE \<le> taken ws"
    by (simp_all add: can_send_def)
  from WriteFrame_completes [OF response_frame_ok [OF assms(1,2) w(1)] assms(4) w(2,3), of dis] obtain enc ws' where
    "WriteFrame (zlib P) (memory P) dis ws (response_image r) c = Done (True, wire_frame enc, c, ws')" by blast
  then have "Write_response (zlib P) (memory P) dis ws r c = Done (True, wire_frame enc, c, ws')"
    by (simp add: Write_response_def RpcResponse_Serialize_eq [OF assms(2)])
  with assms(2) w(1) show ?thesis unfolding sent_by_server_def by blast
qed

text \<open>The client's view of a call whose request is sent and to which \<open>r\<close> is the next response.\<close>

lemma Call_answered:
  assumes "zstd_lossless (zlib P)" and "ready s" and "connection_ptr s = Some c"
    and "Manager_serialize J M request ty = data" "data \<noteq> []"
    and "Write_request (zlib P) (memory P) (env_random E) (env_writes E) (request_of s sname mname data) c
           = Done (True, wire, c, ws')"
    and "sent_by_server P r answer" "arrives_at_client answer chunks"
    and "env_selects E = replicate (length chunks) Sel_ready" "env_reads E = chunk_reads chunks"
  shows "Call L rng J M P E sname mname request ty response s =
    (let s' = s\<lparr>c_sequence := c_sequence s + 1\<rparr> in
     if response_code r \<noteq> 0 then Done (Inr False, response, wire, s')
     else case Manager_deserialize J M (result_data r) response ty of (ok, v) \<Rightarrow> Done (Inr ok, v, wire, s'))"
proof -
  let ?s = "s\<lparr>c_sequence := c_sequence s + 1\<rparr>"
  from assms(2,3) obtain f where f: "c = new_connection f" "0 \<le> f" "f < FD_SETSIZE" by (auto simp: ready_def)
  have "s\<lparr>c_sequence := c_sequence s + 1, connection_ptr := Some c\<rparr> = ?s" using assms(3) by (cases s) simp
  moreover have "connection_ptr ?s = Some (new_connection f)" using assms(3) f by simp
  note ReadResponse_delivers [OF assms(1,7,8) this f(2,3), of J M ty response]
  moreover have "Manager_serialize J M request ty \<noteq> []" using assms(4,5) by simp
  note Call_ready [OF assms(2,3) this, of L rng P E sname mname response]
  ultimately show ?thesis
    using assms(4,6,9,10) by (simp add: Let_def split: prod.split)
qed

section \<open>Properties\<close>


definition sample_kernel :: kernel where
  "sample_kernel = \<lparr>k_open = {0, 1, 2}, k_nonblock = {}, k_bound = Map.empty, k_listening = Map.empty, k_peer = Map.empty\<rparr>"

definition sample_client :: "(bytes \<times> bytes) list rpc_client" where
  "sample_client = (new_client sample_kernel (new_handler 2181 5) None [])\<lparr>connection_ptr := Some (new_connection 4),
     c_connected := True\<rparr>"

definition sample_env :: call_env where
  "sample_env = \<lparr>env_attempts = (\<lambda>_. \<lparr>att_socket = -1, att_connect = False\<rparr>), env_random = (\<lambda>_. 0),
     env_writes = [Wr (4 + MAX_FRAME_SIZE)], env_selects = [], env_reads = []\<rparr>"

definition sample_services :: service_table where
  "sample_services = [str ''RpcService'' \<mapsto> RpcService sample_ops]"

definition sample_result :: bytes where
  "sample_result = str ''echoreceived_message''"

definition sample_answer :: "u32 \<Rightarrow> rpc_response" where
  "sample_answer n = \<lparr>sequence_id = n, result_data = sample_result, error_message = str ''Success'', response_code = 0\<rparr>"

lemma sample_call_fits:
  "request_fits 1000 (request_of sample_client (str ''RpcService'') (str ''Echo'') (str ''hi''))"
  "can_send sample_platform (env_writes sample_env)
     (length (request_image (request_of sample_client (str ''RpcService'') (str ''Echo'') (str ''hi''))))"
  "response_fits 1000 (sample_answer n)"
  "can_send sample_platform [Wr (4 + MAX_FRAME_SIZE)] (length (response_image (sample_answer n)))"
  "frame_ok 3000 stored_zstd 1000 (response_image (sample_answer n))"
proof -
  show fits: "response_fits 1000 (sample_answer n)"
    by (simp add: response_fits_def sample_answer_def sample_result_def)
  show "request_fits 1000 (request_of sample_client (str ''RpcService'') (str ''Echo'') (str ''hi''))"
    by (simp add: request_fits_def request_of_def)
  show "can_send sample_platform (env_writes sample_env)
     (length (request_image (request_of sample_client (str ''RpcService'') (str ''Echo'') (str ''hi''))))"
    by (simp add: can_send_def fits_wire_def length_request_image request_of_def sample_env_def no_error_def
        sample_platform_def guard_simps) (simp add: stored_zstd_def)
  show send: "can_send sample_platform [Wr (4 + MAX_FRAME_SIZE)] (length (response_image (sample_answer n)))"
    by (simp add: can_send_def fits_wire_def length_response_image sample_answer_def sample_result_def no_error_def
        sample_platform_def guard_simps) (simp add: stored_zstd_def)
  have "fits_wire stored_zstd 1000 (length (response_image (sample_answer n)))"
    using send by (simp add: can_send_def sample_platform_def)
  from response_frame_ok [OF stored_zstd_lossless fits this]
  show "frame_ok 3000 stored_zstd 1000 (response_image (sample_answer n))"
    by (simp add: frame_ok_def length_response_image sample_answer_def sample_result_def) (simp add: stored_zstd_def)
qed

lemma sample_answer_arrives:
  "\<exists>answer. sent_by_server sample_platform (sample_answer n) answer \<and> arrives_at_client answer [answer]"
proof -
  let ?P = sample_platform
  have P: "zlib ?P = stored_zstd" "memory ?P = 1000" by (simp_all add: sample_platform_def)
  have z: "zstd_lossless (zlib ?P)" by (simp add: P stored_zstd_lossless)
  have "cstate (new_connection 5) = CONNECTED" by (simp add: new_connection_def)
  with Write_response_completes [OF z _ sample_call_fits(4)] sample_call_fits(3) obtain answer where
    sent: "sent_by_server ?P (sample_answer n) answer" by (metis P(2))
  have "length answer \<le> 3004" using sent_by_server_length [OF z sent, of 3000] sample_call_fits(5) by (simp add: P)
  with sent_by_server_frame(2) [OF z sent] have "arrives_at_client answer [answer]"
    by (intro arrives_whole) (simp_all add: guard_simps)
  with sent show ?thesis by blast
qed

lemma sample_echo:
  "ServiceManager_HandleRpcRequest sample_services (str ''RpcService'') (str ''Echo'') (str ''hi'') []
     = Inr (True, sample_result)"
  by (simp add: ServiceManager_HandleRpcRequest_def sample_services_def RpcService_def RpcService_HandleRequest_def
      echo_body_def sample_ops_def sample_result_def str_def)


text \<open>
  C37. What a call makes of the response: it returns true exactly if the code is 0 and the result
  data deserializes, and only then touches the caller's variable; in every case the client is
  ready for the next call, its sequence number one higher. The sequence id of the response plays
  no role: it is never compared with the request's.
\<close>

theorem call_ignores_sequence_id:
  assumes "zstd_lossless (zlib P)" and "ready s" and "data = Manager_serialize J M request ty" "data \<noteq> []"
    and "q = request_of s sname mname data" "request_fits (memory P) q"
    and "can_send P (env_writes E) (length (request_image q))"
    and "sent_by_server P r answer" "arrives_at_client answer chunks"
    and "env_selects E = replicate (length chunks) Sel_ready" "env_reads E = chunk_reads chunks"
  shows "\<exists>wire s'. sent_by_client P q wire \<and> ready s' \<and> c_sequence s' = c_sequence s + 1
     \<and> Call L rng J M P E sname mname request ty response s =
         (if response_code r \<noteq> 0 then Done (Inr False, response, wire, s')
          else case Manager_deserialize J M (result_data r) response ty of (ok, v) \<Rightarrow> Done (Inr ok, v, wire, s'))"
proof -
  from assms(2) obtain g where g: "connection_ptr s = Some (new_connection g)" "0 \<le> g" "g < FD_SETSIZE"
    by (auto simp: ready_def)
  then have "cstate (new_connection g) = CONNECTED" by (simp add: new_connection_def)
  from Write_request_completes [OF assms(1,6,7) this, of "env_random E"] obtain wire ws1 where
    w: "Write_request (zlib P) (memory P) (env_random E) (env_writes E) q (new_connection g)
          = Done (True, wire, new_connection g, ws1)" and sent: "sent_by_client P q wire" by blast
  from w assms(5) have "Write_request (zlib P) (memory P) (env_random E) (env_writes E) (request_of s sname mname data)
      (new_connection g) = Done (True, wire, new_connection g, ws1)" by simp
  from Call_answered [OF assms(1,2) g(1) assms(3) [symmetric] assms(4) this assms(8-11), of L rng response] sent assms(2)
  show ?thesis
    by (intro exI [of _ wire] exI [of _ "s\<lparr>c_sequence := c_sequence s + 1\<rparr>"]) (simp add: ready_def Let_def)
qed

theorem call_ignores_sequence_id_witness:
  "\<exists>answer wire s'. sent_by_server sample_platform (sample_answer 99) answer
   \<and> Call sample_zk (\<lambda>_ _. 0) sample_ops sample_proto sample_platform
        (sample_env\<lparr>env_selects := [Sel_ready], env_reads := chunk_reads [answer]\<rparr>)
        (str ''RpcService'') (str ''Echo'') (Json (SStr (str ''hi''))) JSON (Json SNull) sample_client
      = Done (Inr True, Json (SObj [(str ''message'', SStr sample_result)]), wire, s')
   \<and> c_sequence s' = 1"
proof -
  let ?P = sample_platform and ?r = "sample_answer 99" and ?q = "request_of sample_client (str ''RpcService'') (str ''Echo'') (str ''hi'')"
  have P: "zlib ?P = stored_zstd" "memory ?P = 1000" by (simp_all add: sample_platform_def)
  have z: "zstd_lossless (zlib ?P)" by (simp add: P stored_zstd_lossless)
  have rdy: "ready sample_client"
    by (auto simp: ready_def sample_client_def guard_simps intro: exI [of _ 4])
  have ser: "str ''hi'' = Manager_serialize sample_ops sample_proto (Json (SStr (str ''hi''))) JSON"
    by (simp add: JSONSerializer_serialize_def sample_ops_def)
  obtain answer where sent: "sent_by_server ?P ?r answer" and arr: "arrives_at_client answer [answer]"
    using sample_answer_arrives by blast
  let ?E = "sample_env\<lparr>env_selects := [Sel_ready], env_reads := chunk_reads [answer]\<rparr>"
  have fit: "request_fits (memory ?P) ?q" "can_send ?P (env_writes ?E) (length (request_image ?q))"
    using sample_call_fits(1,2) by (simp_all add: P)
  from call_ignores_sequence_id [OF z rdy ser _ refl fit sent arr, of sample_zk "\<lambda>_ _. 0" "Json SNull"] obtain wire s' where
    "c_sequence s' = c_sequence sample_client + 1"
    "Call sample_zk (\<lambda>_ _. 0) sample_ops sample_proto ?P ?E (str ''RpcService'') (str ''Echo'') (Json (SStr (str ''hi'')))
       JSON (Json SNull) sample_client = (if response_code ?r \<noteq> 0 then Done (Inr False, Json SNull, wire, s')
          else case Manager_deserialize sample_ops sample_proto (result_data ?r) (Json SNull) JSON of (ok, v) \<Rightarrow> Done (Inr ok, v, wire, s'))"
    by auto
  then show ?thesis using sent
    by (intro exI [of _ answer] exI [of _ wire] exI [of _ s'])
       (simp add: sample_answer_def sample_client_def new_client_def JSONSerializer_deserialize_def sample_ops_def sample_result_def)
qed

end
