(* ===== verification/Client_Sockets.thy ===== *)
theory Client_Sockets
  imports Rpc_Client
begin

text \<open>
  How the client reaches a server and what it does to the kernel's table of sockets: the address
  a server registers is the address the client connects to, and over all its calls, failed
  attempts and reconnections the client holds at most one descriptor.
\<close>

section \<open>Which descriptors the client holds\<close>

definition client_fds :: "'z rpc_client \<Rightarrow> int set" where
  "client_fds s = (case connection_ptr s of None \<Rightarrow> {} | Some c \<Rightarrow> {fd c})"

definition client_inv :: "int set \<Rightarrow> 'z rpc_client \<Rightarrow> bool" where
  "client_inv base s \<longleftrightarrow> k_open (c_kernel s) = base \<union> client_fds s \<and> client_fds s \<inter> base = {}
     \<and> (\<forall>c. connection_ptr s = Some c \<longrightarrow> 0 \<le> fd c) \<and> (c_connected s \<longrightarrow> connection_ptr s \<noteq> None)"

text \<open>The kernel returns an error or a number that is not in use.\<close>

definition fresh_sockets :: "(nat \<Rightarrow> attempt) \<Rightarrow> kernel \<Rightarrow> bool" where
  "fresh_sockets env k \<longleftrightarrow> (\<forall>n. att_socket (env n) < 0 \<or> att_socket (env n) \<notin> k_open k)"

lemma initSocket_inv:
  assumes "initSocket a s = (ok, s')" and "client_inv base s"
    and "att_socket a < 0 \<or> att_socket a \<notin> k_open (c_kernel s)"
  shows "client_inv base s'" and "ok \<Longrightarrow> connection_ptr s' \<noteq> None"
    and "\<not> ok \<Longrightarrow> k_open (c_kernel s') = k_open (c_kernel s)"
proof -
  let ?f = "att_socket a"
  have open_close: "k_open (k_close ?f (k_socket ?f (c_kernel s))) = k_open (c_kernel s)" if "0 \<le> ?f"
    using that assms(3) by (auto simp: k_close_def k_socket_def)
  from assms(1) consider (fail) "\<not> ok" "s' = s"
    | (closed) "\<not> ok" "0 \<le> ?f" "s' = s\<lparr>c_kernel := k_close ?f (k_socket ?f (c_kernel s))\<rparr>"
    | (up) p where "ok" "0 \<le> ?f" "s' = s\<lparr>c_kernel := destroy_connection (connection_ptr s)
        ((k_socket ?f (c_kernel s))\<lparr>k_peer := p\<rparr>), connection_ptr := Some (new_connection ?f)\<rparr>"
    by (simp add: initSocket_def Let_def split: if_splits option.splits) blast+
  then have "client_inv base s' \<and> (ok \<longrightarrow> connection_ptr s' \<noteq> None)
      \<and> (\<not> ok \<longrightarrow> k_open (c_kernel s') = k_open (c_kernel s))"
  proof cases
    case fail
    with assms(2) show ?thesis by simp
  next
    case closed
    with assms(2) open_close show ?thesis by (simp add: client_inv_def client_fds_def)
  next
    case (up p)
    have k: "k_open (c_kernel s') = insert ?f (k_open (c_kernel s)) - client_fds s"
      using assms(2) by (auto simp: up(3) destroy_connection_def k_close_def k_socket_def client_fds_def client_inv_def
          split: option.splits)
    have f: "?f \<notin> k_open (c_kernel s)" using up(2) assms(3) by simp
    have s': "connection_ptr s' = Some (new_connection ?f)" "client_fds s' = {?f}"
      by (simp_all add: up(3) client_fds_def new_connection_def)
    from assms(2) have "k_open (c_kernel s) = base \<union> client_fds s" "client_fds s \<inter> base = {}"
      by (simp_all add: client_inv_def)
    with k f s' up(1,2) show ?thesis by (auto simp: client_inv_def new_connection_def)
  qed
  then show "client_inv base s'" and "ok \<Longrightarrow> connection_ptr s' \<noteq> None"
    and "\<not> ok \<Longrightarrow> k_open (c_kernel s') = k_open (c_kernel s)" by blast+
qed

lemma Connect_loop_inv:
  "Connect_loop L rng env n s = (res, s') \<Longrightarrow> client_inv base s \<Longrightarrow> fresh_sockets env (c_kernel s) \<Longrightarrow>
   client_inv base s' \<and> (res = Inr True \<longrightarrow> c_connected s')"
proof (induction n arbitrary: s)
  case 0
  then show ?case
    by (auto simp: client_inv_def)
next
  case (Suc n)
  obtain addr z lb w where g: "getServer L rng (c_namespace s) (c_zk s) (c_balancer s) (c_world s) = (addr, z, lb, w)"
    by (metis prod_cases4)
  let ?s = "s\<lparr>c_zk := z, c_balancer := lb, c_world := w\<rparr>"
  have s: "client_inv base ?s" "fresh_sockets env (c_kernel ?s)"
    using Suc.prems(2,3) by (simp_all add: client_inv_def client_fds_def)
  consider (skip) "Connect_loop L rng env n ?s = (res, s')"
    | (threw) e ip where "res = Inl e" "s' = ?s\<lparr>c_server_ip := ip\<rparr>"
    | (addressed) ip port where "parse_address addr = Some (ip, Inr port)" "addr \<noteq> []"
    using Suc.prems(1) g by (auto simp: Let_def split: if_splits option.splits sum.splits)
  then show ?case
  proof cases
    case skip
    from Suc.IH [OF this s] show ?thesis .
  next
    case threw
    with s(1) show ?thesis by (simp add: client_inv_def client_fds_def)
  next
    case addressed
    let ?t = "?s\<lparr>c_server_ip := ip, c_server_port := port\<rparr>"
    obtain up u where i: "initSocket (env n) ?t = (up, u)" by fastforce
    have t: "client_inv base ?t" "att_socket (env n) < 0 \<or> att_socket (env n) \<notin> k_open (c_kernel ?t)"
      using s by (simp_all add: client_inv_def client_fds_def fresh_sockets_def)
    note inv = initSocket_inv [OF i t]
    show ?thesis
    proof (cases up)
      case True
      with Suc.prems(1) g addressed i have "s' = u\<lparr>c_connected := True\<rparr>" by (auto simp: Let_def)
      with inv(1) inv(2) [OF True] show ?thesis by (simp add: client_inv_def client_fds_def)
    next
      case False
      with Suc.prems(1) g addressed i have "Connect_loop L rng env n u = (res, s')" by (auto simp: Let_def)
      moreover have "fresh_sockets env (c_kernel u)"
        using inv(3) False s(2) by (simp add: fresh_sockets_def)
      ultimately show ?thesis using Suc.IH inv(1) by blast
    qed
  qed
qed

lemma Connect_inv:
  "Connect L rng env s = (res, s') \<Longrightarrow> client_inv base s \<Longrightarrow> fresh_sockets env (c_kernel s) \<Longrightarrow>
   client_inv base s' \<and> (res = Inr True \<longrightarrow> c_connected s')"
  by (auto simp: Connect_def split: if_splits dest: Connect_loop_inv)

lemma RpcClient_inv:
  assumes "RpcClient L J rng env file cfg s = (e, s')" and "client_inv base s" and "fresh_sockets env (c_kernel s)"
  shows "client_inv base s' \<and> (e = None \<longrightarrow> c_connected s')"
proof -
  obtain r cfg' where i: "InitRpcClientConfig J file cfg = (r, cfg')" by fastforce
  let ?s = "s\<lparr>c_timeout_ms := cc_timeout_ms cfg', c_retry_times := cc_retry_times cfg', c_namespace := cc_zk_namespace cfg'\<rparr>"
  have keep: "client_inv base ?s" "client_inv base (?s\<lparr>c_zk := z, c_world := w\<rparr>)" for z w
    using assms(2) by (simp_all add: client_inv_def client_fds_def)
  consider (config) "r \<noteq> Inr True" | (json) "r = Inr True" "zk_config J cfg' = None"
    | (zk) j where "r = Inr True" "zk_config J cfg' = Some j"
    by (cases "r = Inr True"; cases "zk_config J cfg'") auto
  then show ?thesis
  proof cases
    case config
    with assms(1,2) i show ?thesis by (cases r) (auto simp: RpcClient_def)
  next
    case json
    with assms(1) i keep(1) show ?thesis by (auto simp: RpcClient_def)
  next
    case (zk j)
    obtain ok z w where h: "initZkConnHandler L J j (c_zk s) (c_world s) = (ok, z, w)" by (metis prod_cases3)
    let ?t = "?s\<lparr>c_zk := z, c_world := w\<rparr>"
    obtain res u where c: "Connect L rng env ?t = (res, u)" by fastforce
    have "client_inv base u \<and> (res = Inr True \<longrightarrow> c_connected u)"
      using Connect_inv [OF c keep(2)] assms(3) by simp
    moreover have "(\<not> ok \<and> e \<noteq> None \<and> s' = ?t)
        \<or> (s' = u \<and> e = (case res of Inl x \<Rightarrow> Some x | Inr up \<Rightarrow> if up then None else Some Runtime_error))"
      using assms(1) i zk h c by (cases ok; cases res) (auto simp: RpcClient_def Let_def)
    ultimately show ?thesis using keep(2) by (auto split: sum.splits if_splits)
  qed
qed

lemma Disconnect_inv: "client_inv base s \<Longrightarrow> client_inv base (Disconnect s) \<and> k_open (c_kernel (Disconnect s)) = base"
  by (auto simp: client_inv_def client_fds_def Disconnect_def destroy_connection_def k_close_def split: option.splits)

section \<open>Calls keep the descriptor\<close>

text \<open>
  \<open>ExtractFrame\<close> throws nothing but a failed allocation, and only when the whole frame is in the
  buffer, from which it has then been erased.
\<close>

lemma ExtractFrame_throws:
  assumes "ExtractFrame z mem c out = Inl e"
  shows "e = Bad_alloc \<and> 4 + announced (read_buffer c) \<le> length (read_buffer c)"
  using extract_fault_is_allocation [OF assms] assms
  by (auto simp: ExtractFrame_eq Let_def split: if_splits sum.splits option.splits)

lemma frame_erased_fields: "fd (frame_erased c) = fd c" "cstate (frame_erased c) = cstate c"
  by (simp_all add: frame_erased_def)

lemma await_frame_conn:
  "await_frame z mem ss rs c = Done (x, c') \<Longrightarrow>
   fd c' = fd c \<and> (\<forall>e. x = Inl e \<longrightarrow> e = Bad_alloc \<and> cstate c' = CONNECTED)"
proof (induction z mem ss rs c rule: await_frame.induct)
  case (1 z mem ss rs c)
  obtain b c1 ss1 rs1 where r: "ReadWithTimeout ss rs c = Done (b, c1, ss1, rs1)"
    using 1(2) by (subst (asm) await_frame.simps) (auto split: run.splits)
  from ReadWithTimeout_Done [OF r] have c1: "fd c1 = fd c" "b \<Longrightarrow> cstate c1 = CONNECTED"
    by (auto dest: Read_Done(3) Read_Done(4))
  show ?case
  proof (cases b)
    case False
    with 1(2) r c1 show ?thesis by (subst (asm) await_frame.simps) auto
  next
    case True
    show ?thesis
    proof (cases "ExtractFrame z mem c1 []")
      case (Inl e)
      with 1(2) r True c1 ExtractFrame_throws [OF Inl] show ?thesis
        by (subst (asm) await_frame.simps) (auto simp: frame_erased_fields)
    next
      case (Inr y)
      then obtain st frame c2 where e: "ExtractFrame z mem c1 [] = Inr (st, frame, c2)" by (cases y) auto
      from ExtractFrame_buffer(2) [OF e] c1 have c2: "fd c2 = fd c" by simp
      show ?thesis
      proof (cases "st = kIncomplete")
        case incomplete: True
        with 1(2) r True e have "await_frame z mem ss1 rs1 c2 = Done (x, c')"
          by (subst (asm) await_frame.simps) simp
        with "1.IH" r True e incomplete c2 show ?thesis by simp
      next
        case False
        with 1(2) r True e c2 show ?thesis
          by (subst (asm) await_frame.simps) (cases st; auto)
      qed
    qed
  qed
qed

lemma Write_request_fd: "Write_request z mem dis ws q c = Done (ok, out, c', ws') \<Longrightarrow> fd c' = fd c"
  by (auto simp: Write_request_def WriteFrame_def Let_def split: prod.splits bool.splits sum.splits dest: Write_Done(5))

lemma field_fault:
  "load32 s pos = Inl e \<Longrightarrow> \<not> thrown e" "get_field_unchecked s pos = Inl e \<Longrightarrow> \<not> thrown e"
  by (auto simp: get_field_unchecked_def load32_def Let_def split: if_splits)

lemma response_fault: "RpcResponse_Deserialize frame r = Inl e \<Longrightarrow> \<not> thrown e"
  by (auto simp: RpcResponse_Deserialize_def Let_def
      split: if_splits sum.splits option.splits prod.splits dest: field_fault)

lemma ReadResponse_cases:
  assumes "ReadResponse J M P ty ss rs response s = Done (res, v, s')" and "connection_ptr s = Some c"
  obtains (threw) c' where "res = Inl Bad_alloc" "v = response" "s' = s\<lparr>connection_ptr := Some c'\<rparr>"
      "fd c' = fd c" "cstate c' = CONNECTED"
  | (returned) ok c' where "res = Inr ok" "fd c' = fd c"
      "s' = s\<lparr>connection_ptr := Some c', c_connected := False\<rparr> \<or> s' = s\<lparr>connection_ptr := Some c'\<rparr>"
proof -
  obtain x c' where a: "await_frame (zlib P) (memory P) ss rs c = Done (x, c')"
    using assms by (auto simp: ReadResponse_def split: run.splits)
  note conn = await_frame_conn [OF a]
  show thesis
  proof (cases x)
    case (Inl e)
    with assms a conn show thesis by (intro threw [of c']) (auto simp: ReadResponse_def)
  next
    case (Inr y)
    with assms a conn show thesis
      by (cases y) (auto simp: ReadResponse_def Let_def dest: response_fault intro: returned
          split: if_splits sum.splits bool.splits prod.splits)
  qed
qed

lemma ReadResponse_keeps:
  assumes "ReadResponse J M P ty ss rs response s = Done (res, v, s')" and "client_inv base s"
  shows "client_inv base s'"
proof -
  obtain c where c: "connection_ptr s = Some c"
    using assms(1) by (auto simp: ReadResponse_def split: option.splits)
  from assms(1) c show ?thesis
    by (cases rule: ReadResponse_cases) (use assms(2) c in \<open>auto simp: client_inv_def client_fds_def\<close>)
qed

lemma client_inv_sent:
  "client_inv base s \<Longrightarrow> connection_ptr s = Some c \<Longrightarrow> fd c' = fd c \<Longrightarrow>
   client_inv base (s\<lparr>c_sequence := n, connection_ptr := Some c'\<rparr>)
   \<and> client_inv base (s\<lparr>c_sequence := n, connection_ptr := Some c', c_connected := False\<rparr>)"
  by (simp add: client_inv_def client_fds_def)

text \<open>A call from the point where the client is connected and has something to send.\<close>

lemma Call_connected:
  assumes "c_connected t" and "connection_ptr t = Some c" and "Manager_serialize J M request ty = data" "data \<noteq> []"
  shows "Call L rng J M P E sname mname request ty response t =
     (case Write_request (zlib P) (memory P) (env_random E) (env_writes E) (request_of t sname mname data) c of
        Blocked \<Rightarrow> Blocked
      | Fault e \<Rightarrow> if thrown e then Done (Inl e, response, [], t\<lparr>c_sequence := c_sequence t + 1\<rparr>) else Fault e
      | Done (False, out, c, _) \<Rightarrow>
          Done (Inr False, response, out, t\<lparr>c_sequence := c_sequence t + 1, connection_ptr := Some c, c_connected := False\<rparr>)
      | Done (True, out, c, _) \<Rightarrow>
          (case ReadResponse J M P ty (env_selects E) (env_reads E) response
                 (t\<lparr>c_sequence := c_sequence t + 1, connection_ptr := Some c\<rparr>) of
             Blocked \<Rightarrow> Blocked | Fault e \<Rightarrow> Fault e | Done (res, v, s) \<Rightarrow> Done (res, v, out, s)))"
  using assms by (simp add: Call_def GenerateSequenceId_def request_of_def new_request_def Let_def)

lemma Call_inv:
  assumes "Call L rng J M P E sname mname request ty response s = Done (res, v, out, s')"
    and "client_inv base s" and "fresh_sockets (env_attempts E) (c_kernel s)"
  shows "client_inv base s'"
proof -
  let ?start = "if c_connected s then (Inr True, s) else Connect L rng (env_attempts E) s"
  let ?data = "Manager_serialize J M request ty"
  obtain up t where t: "?start = (up, t)" by (cases ?start) auto
  have inv: "client_inv base t" "up = Inr True \<longrightarrow> c_connected t"
    using t assms(2,3) by (auto split: if_splits dest: Connect_inv)
  show ?thesis
  proof (cases "up = Inr True \<and> ?data \<noteq> []")
    case False
    with assms(1) t have "s' = t" unfolding Call_def by (auto simp: Let_def split: sum.splits bool.splits)
    with inv show ?thesis by simp
  next
    case True
    with inv obtain c where c: "connection_ptr t = Some c" by (auto simp: client_inv_def)
    have up: "c_connected t" using True inv(2) by simp
    have "Call L rng J M P E sname mname request ty response t = Done (res, v, out, s')"
      using assms(1) t True up unfolding Call_def by simp
    note call = this [unfolded Call_connected [OF up c refl conjunct2 [OF True]]]
    let ?n = "c_sequence t + 1"
    show ?thesis
    proof (cases "Write_request (zlib P) (memory P) (env_random E) (env_writes E) (request_of t sname mname ?data) c")
      case (Fault e)
      with call inv(1) show ?thesis by (auto simp: client_inv_def client_fds_def split: if_splits)
    next
      case (Done x)
      then obtain sent o' c' ws' where
        w: "Write_request (zlib P) (memory P) (env_random E) (env_writes E) (request_of t sname mname ?data) c = Done (sent, o', c', ws')"
        by (cases x) auto
      from client_inv_sent [OF inv(1) c Write_request_fd [OF w], of ?n] call w show ?thesis
        by (cases sent) (auto split: run.splits dest: ReadResponse_keeps)
    qed (use call in simp)
  qed
qed

section \<open>The client as a state machine\<close>

inductive client_step :: "'z zk_lib \<Rightarrow> (nat \<Rightarrow> int \<Rightarrow> int) \<Rightarrow> 'j json_ops \<Rightarrow> 'm proto_lib \<Rightarrow> platform
    \<Rightarrow> 'z rpc_client \<Rightarrow> 'z rpc_client \<Rightarrow> bool" for L rng J M P where
  cl_construct: "fresh_sockets env (c_kernel s) \<Longrightarrow> RpcClient L J rng env file cfg s = (e, s') \<Longrightarrow> client_step L rng J M P s s'"
| cl_connect: "fresh_sockets env (c_kernel s) \<Longrightarrow> Connect L rng env s = (res, s') \<Longrightarrow> client_step L rng J M P s s'"
| cl_call: "fresh_sockets (env_attempts E) (c_kernel s) \<Longrightarrow>
     Call L rng J M P E sname mname request ty response s = Done (res, v, out, s') \<Longrightarrow> client_step L rng J M P s s'"
| cl_disconnect: "client_step L rng J M P s (Disconnect s)"

interpretation client: invariant_system "\<lambda>s. \<exists>z lb w. s = new_client k z lb w" "client_step L rng J M P" "client_inv (k_open k)"
  for k L rng J M P
proof
  fix s :: "'a rpc_client"
  assume "\<exists>z lb w. s = new_client k z lb w"
  then show "client_inv (k_open k) s" by (auto simp: client_inv_def client_fds_def new_client_def)
next
  fix s t :: "'a rpc_client"
  assume "client_step L rng J M P s t" and "client_inv (k_open k) s"
  then show "client_inv (k_open k) t"
    by cases (auto dest: RpcClient_inv Connect_inv Call_inv Disconnect_inv)
qed

section \<open>Properties\<close>

text \<open>
  C19. The client never leaks a descriptor: after any sequence of connection attempts, calls and
  disconnections that return or throw, the constructor included, the open descriptors are those from before the
  client existed and at most one of its own, which none of the others is; a connected client has
  a connection object, so no call dereferences a null pointer; and \<open>Disconnect\<close> gives the
  descriptor back.
\<close>

theorem client_one_descriptor:
  assumes "reach (\<lambda>s. \<exists>z lb w. s = new_client k z lb w) (client_step L rng J M P) s"
  shows "k_open (c_kernel s) = k_open k \<union> client_fds s \<and> client_fds s \<inter> k_open k = {} \<and> card (client_fds s) \<le> 1
     \<and> (c_connected s \<longrightarrow> connection_ptr s \<noteq> None) \<and> k_open (c_kernel (Disconnect s)) = k_open k"
  using client.reach_inv [OF assms] Disconnect_inv [OF client.reach_inv [OF assms]]
  by (auto simp: client_inv_def client_fds_def split: option.splits)

definition one_server :: "(bytes \<times> bytes) list" where
  "one_server = [(str ''/a'', str ''127.0.0.1:80'')]"

definition up_attempt :: attempt where
  "up_attempt = \<lparr>att_socket = 4, att_connect = True\<rparr>"

definition sample_start :: "(bytes \<times> bytes) list rpc_client" where
  "sample_start = new_client sample_kernel (new_handler 2181 5) None one_server"

lemma sample_lookup:
  "getServer sample_zk (\<lambda>_ _. 0) [] (new_handler 2181 5) None one_server
     = (str ''127.0.0.1:80'', (new_handler 2181 5)\<lparr>zk_client := Some 0, servers := [str ''127.0.0.1:80'']\<rparr>,
        Some (RandomLoadBalancer 1), one_server)"
  by (simp add: getServer_def updateServersFromZk_def getAllServers_def ensureZkConnection_def max_retries_def
      numeral_3_eq_3 sample_zk_def new_handler_def one_server_def str_def slash_def BUFFER_SIZE_def selectServer_def
      select_def Random_select_def createRandom_def)

lemma sample_connects:
  "\<exists>s. Connect sample_zk (\<lambda>_ _. 0) (\<lambda>_. up_attempt) sample_start = (Inr True, s)
     \<and> connection_ptr s = Some (new_connection 4) \<and> k_peer (c_kernel s) 4 = Some ([127, 0, 0, 1], 80)"
proof -
  have p: "parse_address (str ''127.0.0.1:80'') = Some (str ''127.0.0.1'', Inr 80)"
    by (simp add: parse_address_def str_def colon_def stoi_def is_space_def is_digit_def digits_value_def)
  have i: "inet_pton (str ''127.0.0.1'') = Some [127, 0, 0, 1]"
    by (simp add: inet_pton_def str_def octet_def is_digit_def digits_value_def)
  show ?thesis
    by (simp add: Connect_def sample_start_def new_client_def numeral_3_eq_3 sample_lookup p Let_def initSocket_def i
        up_attempt_def sin_port_def destroy_connection_def)
qed

theorem client_one_descriptor_witness:
  "\<exists>s. reach (\<lambda>s. \<exists>z lb w. s = new_client sample_kernel z lb w)
        (client_step sample_zk (\<lambda>_ _. 0) sample_ops sample_proto sample_platform) s
     \<and> connection_ptr s = Some (new_connection 4) \<and> k_open (c_kernel s) = {0, 1, 2, 4}
     \<and> k_open (c_kernel (Disconnect s)) = {0, 1, 2}"
proof -
  obtain s where s: "Connect sample_zk (\<lambda>_ _. 0) (\<lambda>_. up_attempt) sample_start = (Inr True, s)"
    "connection_ptr s = Some (new_connection 4)" using sample_connects by blast
  have "fresh_sockets (\<lambda>_. up_attempt) (c_kernel sample_start)"
    by (simp add: fresh_sockets_def up_attempt_def sample_start_def new_client_def sample_kernel_def)
  from cl_connect [OF this s(1), of sample_ops sample_proto sample_platform]
  have r: "reach (\<lambda>s. \<exists>z lb w. s = new_client sample_kernel z lb w)
        (client_step sample_zk (\<lambda>_ _. 0) sample_ops sample_proto sample_platform) s"
    by (intro reach_step [OF reach_init [where s = sample_start]]) (auto simp: sample_start_def)
  have "client_fds s = {4}" by (simp add: client_fds_def s(2) new_connection_def)
  with client_one_descriptor [OF r] r s(2) show ?thesis
    by (intro exI [of _ s]) (auto simp: sample_kernel_def)
qed

text \<open>
  C38. The client finds the server where the server said it is: the node data \<open>address:port\<close> that
  \<open>registerServicesFromConfig\<close> writes is taken apart by \<open>Connect\<close> into the same address and port,
  and the socket address carries that port; for this only the address must hold no colon. A port
  beyond 65535 in the node data, in contrast, is accepted and truncated.
\<close>

theorem registered_address_parsed:
  "(colon \<notin> set (node_address node) \<longrightarrow>
      parse_address (service_address node) = Some (node_address node, Inr (uint (node_port node)))
      \<and> sin_port (uint (node_port node)) = node_port node)
   \<and> (colon \<notin> set ip \<and> n < 2 ^ 31 \<longrightarrow> parse_address (ip @ colon # decimal n) = Some (ip, Inr (int n))
        \<and> sin_port (int n) = sin_port (int n mod 65536))"
proof -
  have gen: "colon \<notin> set ip \<Longrightarrow> n < 2 ^ 31 \<Longrightarrow> parse_address (ip @ colon # decimal n) = Some (ip, Inr (int n))" for ip n
    by (simp add: parse_address_def find_char_split stoi_decimal)
  have "parse_address (service_address node) = Some (node_address node, Inr (uint (node_port node)))"
    if "colon \<notin> set (node_address node)"
  proof -
    have lt: "nat (uint (node_port node)) < 2 ^ 31"
      using unsigned_less [of "node_port node", where 'a = nat] by simp
    have "service_address node = node_address node @ colon # decimal (nat (uint (node_port node)))"
      by (simp add: service_address_def to_string_def str_def colon_def)
    with gen [OF that lt] show ?thesis by simp
  qed
  moreover have "sin_port (uint (node_port node)) = node_port node" by (simp add: sin_port_def)
  moreover have "sin_port (int n) = sin_port (int n mod 65536)"
    unfolding sin_port_def by (transfer fixing: n) (simp add: take_bit_eq_mod)
  ultimately show ?thesis using gen by blast
qed

theorem registered_address_parsed_witness:
  "parse_address (service_address \<lparr>node_address = str ''10.0.0.7'', node_port = 8989\<rparr>) = Some (str ''10.0.0.7'', Inr 8989)
   \<and> parse_address (str ''10.0.0.7'' @ colon # decimal 65616) = Some (str ''10.0.0.7'', Inr 65616)"
  using registered_address_parsed [of "\<lparr>node_address = str ''10.0.0.7'', node_port = 8989\<rparr>" "str ''10.0.0.7''" 65616]
  by (simp add: str_def colon_def)

lemma Write_request_throws:
  assumes "Write_request z mem dis ws q c = Fault e" and "thrown e"
  shows "e = Bad_alloc"
proof -
  obtain ok ser where ser: "RpcRequest_Serialize mem q [] = (ok, ser)" by fastforce
  have loop: "Write_loop ws data n c = Fault e \<Longrightarrow> e = Sigpipe" for ws data n c e
    by (induction ws arbitrary: n) (subst (asm) Write_loop.simps, auto split: if_splits write_result.splits)+
  have "\<not> (Write ws data c = Fault e)" for data
    using loop [of ws data 0 c e] assms(2) by (auto simp: Write_def split: if_splits)
  moreover have "CompressString z mem DEFAULT ser [] = Inl x \<Longrightarrow> x = Bad_alloc" for x
    by (auto simp: CompressString_def resize_or_throw_def split: if_splits sum.splits prod.splits)
  moreover have "Encrypt dis packed [] \<noteq> Inl x" for packed x
    by (auto simp: Encrypt_def ShiftEncrypt_def GenerateRandomBytes_def master_key_def KEY_LENGTH_def Let_def)
  ultimately show ?thesis
    using assms(1) ser
    by (cases ok) (auto simp: Write_request_def WriteFrame_def Let_def split: sum.splits bool.splits prod.splits)
qed



end
