(* ===== verification/Stress_Test.thy ===== *)
theory Stress_Test
  imports Client_Sockets "HOL-Library.Multiset" "HOL-Library.Signed_Division"
begin

text \<open>
  \<open>rpc_src/tools/stress_test_client.cpp\<close>: the load generator. Each worker thread constructs a client
  and performs its calls on it (\<open>Rpc_Client\<close>). The global counters are atomic, so what the worker
  threads do to them is a list of atomic operations per thread, and a run is any interleaving of
  these lists; what the threads do to the singletons the clients share enters each call as an
  argument. The rates printed at the end, floating-point numbers, are not modelled.
\<close>

section \<open>Configuration and command line\<close>

record stress_config =
  num_requests :: int
  concurrent_clients :: int
  test_duration_seconds :: int
  server_config_file :: bytes
  verbose :: bool

definition StressTestConfig :: stress_config where
  "StressTestConfig = \<lparr>num_requests = 100, concurrent_clients = 10, test_duration_seconds = 0,
     server_config_file = str ''../config/rpc_client.json'', verbose = False\<rparr>"

text \<open>A number option takes the next argument, if there is one; \<open>std::stoi\<close> may throw.\<close>

datatype parsed = Parsed stress_config | Exits int | Throws fault

fun parse_from :: "bytes list \<Rightarrow> stress_config \<Rightarrow> parsed" where
  "parse_from [] cfg = Parsed cfg"
| "parse_from (arg # args) cfg =
     (if arg = str ''-n'' \<or> arg = str ''--requests''
      then (case args of [] \<Rightarrow> Parsed cfg
            | a # rest \<Rightarrow> (case stoi a of Inl e \<Rightarrow> Throws e | Inr v \<Rightarrow> parse_from rest (cfg\<lparr>num_requests := v\<rparr>)))
      else if arg = str ''-c'' \<or> arg = str ''--clients''
      then (case args of [] \<Rightarrow> Parsed cfg
            | a # rest \<Rightarrow> (case stoi a of Inl e \<Rightarrow> Throws e | Inr v \<Rightarrow> parse_from rest (cfg\<lparr>concurrent_clients := v\<rparr>)))
      else if arg = str ''-t'' \<or> arg = str ''--time''
      then (case args of [] \<Rightarrow> Parsed cfg
            | a # rest \<Rightarrow> (case stoi a of Inl e \<Rightarrow> Throws e | Inr v \<Rightarrow> parse_from rest (cfg\<lparr>test_duration_seconds := v\<rparr>)))
      else if arg = str ''-f'' \<or> arg = str ''--config''
      then (case args of [] \<Rightarrow> Parsed cfg | a # rest \<Rightarrow> parse_from rest (cfg\<lparr>server_config_file := a\<rparr>))
      else if arg = str ''-v'' \<or> arg = str ''--verbose'' then parse_from args (cfg\<lparr>verbose := True\<rparr>)
      else if arg = str ''-h'' \<or> arg = str ''--help'' then Exits 0
      else Exits 1)"

definition parseArgs :: "bytes list \<Rightarrow> parsed" where
  "parseArgs argv = parse_from (drop 1 argv) StressTestConfig"

section \<open>The counters\<close>

record counters =
  total_requests :: u32
  success_count :: u32
  error_count :: u32
  total_response_time :: u64

definition zero_counters :: counters where
  "zero_counters = \<lparr>total_requests = 0, success_count = 0, error_count = 0, total_response_time = 0\<rparr>"

datatype counter_op = Add_total | Add_time u64 | Add_success | Add_error

fun apply_op :: "counter_op \<Rightarrow> counters \<Rightarrow> counters" where
  "apply_op Add_total c = c\<lparr>total_requests := total_requests c + 1\<rparr>"
| "apply_op (Add_time d) c = c\<lparr>total_response_time := total_response_time c + d\<rparr>"
| "apply_op Add_success c = c\<lparr>success_count := success_count c + 1\<rparr>"
| "apply_op Add_error c = c\<lparr>error_count := error_count c + 1\<rparr>"

text \<open>How a request ends for the statistics, and what is counted for it.\<close>

datatype call_outcome = Call_true | Call_false | Call_threw

fun outcome_of :: "fault + bool \<Rightarrow> call_outcome" where
  "outcome_of (Inr True) = Call_true"
| "outcome_of (Inr False) = Call_false"
| "outcome_of (Inl e) = Call_threw"

fun count_request :: "call_outcome \<times> u64 \<Rightarrow> counter_op list" where
  "count_request (Call_true, duration) = [Add_total, Add_time duration, Add_success]"
| "count_request (Call_false, duration) = [Add_total, Add_time duration, Add_error]"
| "count_request (Call_threw, duration) = [Add_total, Add_time duration, Add_error]"

section \<open>One request\<close>

text \<open>
  What the world does during one request: the call, the two clocks, and what the other worker
  threads have made meanwhile of what all clients of the process share, the kernel's table of
  sockets, the ZooKeeper handler with its server list, and the load balancer.
\<close>

record 'z request_env =
  re_call :: call_env
  re_timestamp :: u64
  re_duration :: u64
  re_kernel :: kernel
  re_zk :: zk_handler
  re_balancer :: "load_balancer option"
  re_world :: 'z

definition share :: "'z request_env \<Rightarrow> 'z rpc_client \<Rightarrow> 'z rpc_client" where
  "share e s = s\<lparr>c_kernel := re_kernel e, c_zk := re_zk e, c_balancer := re_balancer e, c_world := re_world e\<rparr>"

definition stress_request :: "'j json_ops \<Rightarrow> int \<Rightarrow> u64 \<Rightarrow> 'j option" where
  "stress_request J request_id timestamp =
     (case json_set J (json_null J) (str ''message'') (str ''stress test request '' @ to_string request_id) of
        None \<Rightarrow> None
      | Some request \<Rightarrow> json_set_long J request (str ''timestamp'') timestamp)"

text \<open>The outcome of the request, with its duration, and the client afterwards.\<close>

definition performSingleRequest :: "'z zk_lib \<Rightarrow> (nat \<Rightarrow> int \<Rightarrow> int) \<Rightarrow> 'j json_ops \<Rightarrow> 'm proto_lib \<Rightarrow> platform
    \<Rightarrow> 'z request_env \<Rightarrow> int \<Rightarrow> 'z rpc_client \<Rightarrow> ((call_outcome \<times> u64) \<times> 'z rpc_client) run" where
  "performSingleRequest L rng J M P e request_id client =
     (case stress_request J request_id (re_timestamp e) of
        None \<Rightarrow> Done ((Call_threw, re_duration e), client)
      | Some request \<Rightarrow>
          (case Call L rng J M P (re_call e) (str ''RpcService'') (str ''Echo'') (Json request) JSON
                  (Json (json_null J)) (share e client) of
             Blocked \<Rightarrow> Blocked
           | Fault f \<Rightarrow> Fault f
           | Done (res, _, _, client) \<Rightarrow> Done ((outcome_of res, re_duration e), client)))"

section \<open>The worker threads\<close>

text \<open>\<open>/\<close> and \<open>%\<close> of C++ truncate towards zero.\<close>

definition requests_per_client :: "stress_config \<Rightarrow> int \<Rightarrow> int" where
  "requests_per_client cfg worker_id =
     (let n = num_requests cfg sdiv concurrent_clients cfg
      in if worker_id = 0 then n + num_requests cfg smod concurrent_clients cfg else n)"

text \<open>
  A run of one worker: how its client is constructed, how many requests the clock allows in the
  time-based mode, and the world during request \<open>i\<close>.
\<close>

record 'z worker_env =
  we_attempts :: "nat \<Rightarrow> attempt"
  we_file :: "bytes option"
  we_config :: client_config
  we_client :: "'z rpc_client"
  we_rounds :: nat
  we_requests :: "nat \<Rightarrow> 'z request_env"

text \<open>The requests \<open>i\<close>, \<open>i + 1\<close>, ... of a worker, \<open>n\<close> in number; the ids start at \<open>worker_id * 100000\<close>.\<close>

fun request_loop :: "('z request_env \<Rightarrow> int \<Rightarrow> 'z rpc_client \<Rightarrow> ((call_outcome \<times> u64) \<times> 'z rpc_client) run)
    \<Rightarrow> (nat \<Rightarrow> 'z request_env) \<Rightarrow> int \<Rightarrow> nat \<Rightarrow> nat \<Rightarrow> 'z rpc_client \<Rightarrow> (call_outcome \<times> u64) list run" where
  "request_loop perform envs worker_id i 0 client = Done []"
| "request_loop perform envs worker_id i (Suc n) client =
     (case perform (envs i) (worker_id * 100000 + int i) client of
        Blocked \<Rightarrow> Blocked
      | Fault f \<Rightarrow> Fault f
      | Done (o1, client) \<Rightarrow>
          (case request_loop perform envs worker_id (i + 1) n client of
             Blocked \<Rightarrow> Blocked | Fault f \<Rightarrow> Fault f | Done os \<Rightarrow> Done (o1 # os)))"

definition clientWorker :: "'z zk_lib \<Rightarrow> (nat \<Rightarrow> int \<Rightarrow> int) \<Rightarrow> 'j json_ops \<Rightarrow> 'm proto_lib \<Rightarrow> platform
    \<Rightarrow> stress_config \<Rightarrow> 'z worker_env \<Rightarrow> int \<Rightarrow> (call_outcome \<times> u64) list run" where
  "clientWorker L rng J M P cfg W worker_id =
     (case RpcClient L J rng (we_attempts W) (we_file W) (we_config W) (we_client W) of
        (Some e, _) \<Rightarrow> Done []
      | (None, client) \<Rightarrow>
          request_loop (performSingleRequest L rng J M P) (we_requests W) worker_id 0
            (if test_duration_seconds cfg > 0 then we_rounds W else nat (requests_per_client cfg worker_id)) client)"

fun interleavings :: "'a list list \<Rightarrow> 'a list set" where
  "interleavings [] = {[]}"
| "interleavings (xs # xss) = (\<Union>ys\<in>interleavings xss. shuffles xs ys)"

section \<open>The main program\<close>

definition check_config :: "stress_config \<Rightarrow> int option" where
  "check_config cfg =
     (if num_requests cfg \<le> 0 \<or> concurrent_clients cfg \<le> 0 then Some 1
      else if concurrent_clients cfg > num_requests cfg \<and> test_duration_seconds cfg = 0 then Some 1
      else None)"

text \<open>
  What one worker does to the counters, one atomic operation after the other. \<open>main\<close> returns when
  all workers have: the exit code, the counters, and what happened to the requests of each worker.
\<close>

definition worker_ops :: "(call_outcome \<times> u64) list \<Rightarrow> counter_op list" where
  "worker_ops os = concat (map count_request os)"

inductive stress_main :: "'z zk_lib \<Rightarrow> (nat \<Rightarrow> int \<Rightarrow> int) \<Rightarrow> 'j json_ops \<Rightarrow> 'm proto_lib \<Rightarrow> platform
    \<Rightarrow> bytes list \<Rightarrow> (nat \<Rightarrow> 'z worker_env) \<Rightarrow> int \<Rightarrow> counters \<Rightarrow> (call_outcome \<times> u64) list list \<Rightarrow> bool"
  for L rng J M P argv W where
  main_exits: "parseArgs argv = Exits code \<Longrightarrow> stress_main L rng J M P argv W code zero_counters []"
| main_throws: "parseArgs argv = Throws e \<Longrightarrow> stress_main L rng J M P argv W 1 zero_counters []"
| main_refuses: "parseArgs argv = Parsed cfg \<Longrightarrow> check_config cfg = Some code \<Longrightarrow>
     stress_main L rng J M P argv W code zero_counters []"
| main_runs: "parseArgs argv = Parsed cfg \<Longrightarrow> check_config cfg = None \<Longrightarrow>
     length oss = nat (concurrent_clients cfg) \<Longrightarrow>
     (\<And>w. w < length oss \<Longrightarrow> clientWorker L rng J M P cfg (W w) (int w) = Done (oss ! w)) \<Longrightarrow>
     ops \<in> interleavings (map worker_ops oss) \<Longrightarrow>
     stress_main L rng J M P argv W 0 (fold apply_op ops zero_counters) oss"

text \<open>The statistics printed at the end, as far as they are numbers of requests.\<close>

record report =
  rep_total :: int
  rep_success :: int
  rep_errors :: int

definition print_report :: "counters \<Rightarrow> report" where
  "print_report c = \<lparr>rep_total = sint (total_requests c), rep_success = sint (success_count c), rep_errors = sint (error_count c)\<rparr>"

section \<open>Counting\<close>

lemma fold_counts:
  "total_requests (fold apply_op ops c) = total_requests c + of_nat (count (mset ops) Add_total)"
  "success_count (fold apply_op ops c) = success_count c + of_nat (count (mset ops) Add_success)"
  "error_count (fold apply_op ops c) = error_count c + of_nat (count (mset ops) Add_error)"
proof (induction ops arbitrary: c)
  case (Cons x ops)
  case 1
  show ?case by (cases x) (simp_all add: Cons.IH)
  case 2
  show ?case by (cases x) (simp_all add: Cons.IH)
  case 3
  show ?case by (cases x) (simp_all add: Cons.IH)
qed simp_all

lemma interleavings_mset: "ops \<in> interleavings xss \<Longrightarrow> mset ops = sum_list (map mset xss)"
  by (induction xss arbitrary: ops) (auto simp: mset_shuffles)

lemma interleavings_nonempty: "\<exists>ops. ops \<in> interleavings xss"
  by (induction xss) (auto intro: splice_in_shuffles)

lemma count_sum_list: "count (sum_list ms) x = sum_list (map (\<lambda>m. count m x) ms)"
  by (induction ms) simp_all

lemma worker_ops_counts:
  "count (mset (worker_ops os)) Add_total = length os"
  "count (mset (worker_ops os)) Add_success = length (filter (\<lambda>o1. fst o1 = Call_true) os)"
  "count (mset (worker_ops os)) Add_success + count (mset (worker_ops os)) Add_error = length os"
proof -
  have one: "count (mset (count_request o1)) Add_total = 1"
    "count (mset (count_request o1)) Add_success = (if fst o1 = Call_true then 1 else 0)"
    "count (mset (count_request o1)) Add_error = (if fst o1 = Call_true then 0 else 1)" for o1
    by (induction o1 rule: count_request.induct) simp_all
  show "count (mset (worker_ops os)) Add_total = length os"
    "count (mset (worker_ops os)) Add_success = length (filter (\<lambda>o1. fst o1 = Call_true) os)"
    "count (mset (worker_ops os)) Add_success + count (mset (worker_ops os)) Add_error = length os"
    by (induction os) (simp_all add: worker_ops_def one)
qed

lemma request_loop_length: "request_loop perform envs worker_id i n client = Done os \<Longrightarrow> length os = n"
  by (induction n arbitrary: i client os) (auto split: run.splits prod.splits)

text \<open>\<open>std::stoi\<close> gives an \<open>int\<close>.\<close>

lemma parse_from_bound: "parse_from args cfg = Parsed cfg' \<Longrightarrow> num_requests cfg < 2 ^ 31 \<Longrightarrow> num_requests cfg' < 2 ^ 31"
proof (induction args cfg rule: parse_from.induct)
  case (2 arg args cfg)
  have "stoi a = Inr v \<Longrightarrow> v < 2 ^ 31" for a v
    by (auto simp: stoi_def Let_def split: if_splits prod.splits)
  with 2 show ?case by (auto split: if_splits list.splits sum.splits)
qed simp

text \<open>The requests are distributed over the workers without loss.\<close>

lemma requests_sum:
  assumes "0 < num_requests cfg" "0 < concurrent_clients cfg"
  shows "(\<Sum>w\<leftarrow>[0..<nat (concurrent_clients cfg)]. nat (requests_per_client cfg (int w))) = nat (num_requests cfg)"
proof -
  let ?n = "num_requests cfg" and ?c = "concurrent_clients cfg"
  have per: "nat (requests_per_client cfg (int w)) = nat (?n div ?c) + (if w = 0 then nat (?n mod ?c) else 0)" for w
    using assms by (auto simp: requests_per_client_def Let_def signed_divide_int_def signed_modulo_int_def
        pos_imp_zdiv_nonneg_iff nat_add_distrib)
  have "(\<Sum>w\<leftarrow>[0..<Suc m]. a + (if w = 0 then b else 0)) = Suc m * a + b" for m and a b :: nat
    by (induction m) simp_all
  from this [of "nat (?n div ?c)" "nat (?n mod ?c)" "nat ?c - 1"]
  have "(\<Sum>w\<leftarrow>[0..<nat ?c]. nat (requests_per_client cfg (int w))) = nat ?c * nat (?n div ?c) + nat (?n mod ?c)"
    using assms by (simp add: per)
  also have "\<dots> = nat ?n"
    using assms by (simp add: nat_mult_distrib [symmetric] nat_add_distrib [symmetric] pos_imp_zdiv_nonneg_iff)
  finally show ?thesis .
qed

text \<open>Every interleaving of the counts gives the same sums, which do not wrap below \<open>2 ^ 31\<close>.\<close>

lemma interleaved_counts:
  assumes "ops \<in> interleavings (map worker_ops oss)" and "int (length (concat oss)) < 2 ^ 31"
    and "c = fold apply_op ops zero_counters"
  shows "rep_total (print_report c) = int (length (concat oss))"
    and "rep_success (print_report c) = int (length (filter (\<lambda>o1. fst o1 = Call_true) (concat oss)))"
    and "rep_success (print_report c) + rep_errors (print_report c) = int (length (concat oss))"
proof -
  let ?n = "length (concat oss)" and ?ok = "length (filter (\<lambda>o1. fst o1 = Call_true) (concat oss))"
  have m: "count (mset ops) x = (\<Sum>os\<leftarrow>oss. count (mset (worker_ops os)) x)" for x
    by (simp add: interleavings_mset [OF assms(1)] count_sum_list comp_def)
  have t: "count (mset ops) Add_total = ?n" and s: "count (mset ops) Add_success = ?ok"
    unfolding m worker_ops_counts(1,2) by (simp_all add: length_concat filter_concat comp_def)
  have se: "count (mset ops) Add_success + count (mset ops) Add_error = ?n"
    unfolding m sum_list_addf [symmetric] worker_ops_counts(3) by (simp add: length_concat)
  have exact: "sint (0 + of_nat k :: u32) = int k" if "k \<le> ?n" for k
    using that assms(2) by (simp add: signed_of_nat signed_take_bit_int_eq_self)
  have le: "count (mset ops) Add_error \<le> ?n" "?ok \<le> ?n"
    using se s by simp_all
  have "sint (total_requests c) = int ?n" "sint (success_count c) = int ?ok"
    "sint (error_count c) = int (count (mset ops) Add_error)"
    unfolding assms(3) fold_counts zero_counters_def counters.simps t s
    by (rule exact; simp add: le)+
  with se s show "rep_total (print_report c) = int ?n" "rep_success (print_report c) = int ?ok"
    "rep_success (print_report c) + rep_errors (print_report c) = int ?n"
    by (simp_all add: print_report_def)
qed

text \<open>The outcomes the workers give together are as many as the requests asked for.\<close>

lemma outcomes_total:
  assumes "length oss = nat (concurrent_clients cfg)" and "check_config cfg = None"
    and "\<And>w. w < length oss \<Longrightarrow> length (oss ! w) = nat (requests_per_client cfg (int w))"
  shows "int (length (concat oss)) = num_requests cfg"
proof -
  have "map length oss = map (\<lambda>w. nat (requests_per_client cfg (int w))) [0..<length oss]"
    by (rule nth_equalityI) (simp_all add: assms(3))
  then have "length (concat oss) = (\<Sum>w\<leftarrow>[0..<nat (concurrent_clients cfg)]. nat (requests_per_client cfg (int w)))"
    by (simp add: length_concat assms(1))
  also have "\<dots> = nat (num_requests cfg)"
    using assms(2) by (intro requests_sum) (auto simp: check_config_def split: if_splits)
  finally show ?thesis using assms(2) by (auto simp: check_config_def split: if_splits)
qed

section \<open>Properties\<close>


subsection \<open>A concrete run\<close>

text \<open>Two workers: the calls of the first succeed, the call of the second cannot be sent.\<close>

definition stress_client :: "(bytes \<times> bytes) list rpc_client" where
  "stress_client = new_client sample_kernel (new_handler 2181 5) None [(str ''myrpc/a'', str ''127.0.0.1:80'')]"

definition stress_defaults :: client_config where
  "stress_defaults = \<lparr>cc_zk_namespace = [], cc_zk_host = [], cc_zk_port = 0, cc_timeout_ms = 0, cc_retry_times = 0,
     cc_server_port = 0\<rparr>"

lemma stress_constructs:
  "\<exists>s. RpcClient sample_zk sample_ops (\<lambda>_ _. 0) (\<lambda>_. up_attempt) (Some [1]) stress_defaults stress_client = (None, s)
     \<and> ready s"
proof -
  have "case RpcClient sample_zk sample_ops (\<lambda>_ _. 0) (\<lambda>_. up_attempt) (Some [1]) stress_defaults stress_client of
      (e, s) \<Rightarrow> e = None \<and> c_connected s \<and> connection_ptr s = Some (new_connection 4)"
    by code_simp
  then show ?thesis by (auto simp: ready_def guard_simps split: prod.splits)
qed

definition request_env_of :: "call_env \<Rightarrow> (bytes \<times> bytes) list request_env" where
  "request_env_of E = \<lparr>re_call = E, re_timestamp = 7, re_duration = 5, re_kernel = sample_kernel, re_zk = new_handler 2181 5,
     re_balancer = None, re_world = []\<rparr>"

lemma request_env_fields [simp]:
  "re_call (request_env_of E) = E" "re_timestamp (request_env_of E) = 7" "re_duration (request_env_of E) = 5"
  "json_null sample_ops = SNull"
  by (simp_all add: request_env_of_def sample_ops_def)

lemma stress_request_sample:
  "\<exists>request. stress_request sample_ops i t = Some request
     \<and> Manager_serialize sample_ops sample_proto (Json request) JSON = str ''messagetimestamp''"
  by (simp add: stress_request_def sample_ops_def JSONSerializer_serialize_def str_def)

lemma stress_writable:
  assumes "ready s"
  obtains c wire ws' where "connection_ptr s = Some c" "cstate c = CONNECTED"
    "Write_request (zlib sample_platform) (memory sample_platform) (\<lambda>_. 0) [Wr (4 + MAX_FRAME_SIZE)]
       (request_of s (str ''RpcService'') (str ''Echo'') (str ''messagetimestamp'')) c = Done (True, wire, c, ws')"
    "Write_request (zlib sample_platform) (memory sample_platform) (\<lambda>_. 0) [Wr_error 0]
       (request_of s (str ''RpcService'') (str ''Echo'') (str ''messagetimestamp'')) c = Done (False, [], c\<lparr>cstate := DISCONNECTED\<rparr>, [])"
proof -
  let ?q = "request_of s (str ''RpcService'') (str ''Echo'') (str ''messagetimestamp'')"
  obtain c where c: "connection_ptr s = Some c" "cstate c = CONNECTED"
    using assms by (auto simp: ready_def new_connection_def)
  have P: "zlib sample_platform = stored_zstd" "memory sample_platform = 1000" by (simp_all add: sample_platform_def)
  have fit: "request_fits 1000 ?q" by (simp add: request_fits_def request_of_def)
  have send: "can_send sample_platform [Wr (4 + MAX_FRAME_SIZE)] (length (request_image ?q))"
    by (simp add: can_send_def fits_wire_def length_request_image request_of_def no_error_def
        sample_platform_def guard_simps) (simp add: stored_zstd_def)
  have "fits_wire stored_zstd 1000 (length (request_image ?q))" using send by (simp add: can_send_def P)
  note ok = request_frame_ok [OF stored_zstd_lossless fit this]
  from sealed_ex [OF ok] obtain enc where enc: "sealed stored_zstd 1000 (\<lambda>_. 0) (request_image ?q) enc" by blast
  have w: "Write_request stored_zstd 1000 (\<lambda>_. 0) ws ?q c = Write ws (wire_frame enc) c" for ws
    by (simp add: Write_request_def RpcRequest_Serialize_eq [OF fit] WriteFrame_sealed [OF enc])
  have "Write [Wr_error 0] (wire_frame enc) c = Done (False, [], c\<lparr>cstate := DISCONNECTED\<rparr>, [])"
    using c(2) by (simp add: Write_def Write_loop.simps wire_frame_def)
  moreover from Write_request_completes [OF _ _ send c(2), of "\<lambda>_. 0"] fit stored_zstd_lossless obtain wire ws' where
    "Write_request stored_zstd 1000 (\<lambda>_. 0) [Wr (4 + MAX_FRAME_SIZE)] ?q c = Done (True, wire, c, ws')"
    by (auto simp: P)
  ultimately show thesis using that [OF c] w by (simp add: P)
qed

lemma stress_request_outcomes:
  assumes "ready s"
  shows "\<exists>e s'. performSingleRequest sample_zk (\<lambda>_ _. 0) sample_ops sample_proto sample_platform e i s
           = Done ((Call_true, 5), s') \<and> ready s'"
    and "\<exists>e s'. performSingleRequest sample_zk (\<lambda>_ _. 0) sample_ops sample_proto sample_platform e i s
           = Done ((Call_false, 5), s')"
proof -
  let ?P = sample_platform and ?n = "str ''RpcService''" and ?m = "str ''Echo''"
  define t where "t = share (request_env_of sample_env) s"
  have t: "share (request_env_of E) s = t" for E by (simp add: t_def share_def request_env_of_def)
  have rdy: "ready t" using assms by (simp add: t_def share_def ready_def)
  from rdy have up: "c_connected t" by (simp add: ready_def)
  obtain request where rq: "stress_request sample_ops i 7 = Some request"
    and ser: "Manager_serialize sample_ops sample_proto (Json request) JSON = str ''messagetimestamp''"
    using stress_request_sample by blast
  obtain c wire ws' where c: "connection_ptr t = Some c" "cstate c = CONNECTED"
    and ok: "Write_request (zlib ?P) (memory ?P) (\<lambda>_. 0) [Wr (4 + MAX_FRAME_SIZE)]
       (request_of t ?n ?m (str ''messagetimestamp'')) c = Done (True, wire, c, ws')"
    and bad: "Write_request (zlib ?P) (memory ?P) (\<lambda>_. 0) [Wr_error 0]
       (request_of t ?n ?m (str ''messagetimestamp'')) c = Done (False, [], c\<lparr>cstate := DISCONNECTED\<rparr>, [])"
    using stress_writable [OF rdy] by metis
  let ?E = "sample_env\<lparr>env_writes := [Wr_error 0]\<rparr>"
  have "Call sample_zk (\<lambda>_ _. 0) sample_ops sample_proto ?P ?E ?n ?m (Json request) JSON (Json SNull) t
      = Done (Inr False, Json SNull, [], t\<lparr>c_sequence := c_sequence t + 1,
          connection_ptr := Some (c\<lparr>cstate := DISCONNECTED\<rparr>), c_connected := False\<rparr>)"
    using bad by (simp add: Call_connected [OF up c(1) ser] sample_env_def)
  with rq show "\<exists>e s'. performSingleRequest sample_zk (\<lambda>_ _. 0) sample_ops sample_proto ?P e i s = Done ((Call_false, 5), s')"
    by (intro exI [of _ "request_env_of ?E"])
       (simp add: performSingleRequest_def t)
  have P: "zlib ?P = stored_zstd" "memory ?P = 1000" by (simp_all add: sample_platform_def)
  have z: "zstd_lossless (zlib ?P)" by (simp add: P stored_zstd_lossless)
  obtain answer where sent: "sent_by_server ?P (sample_answer 1) answer" and arr: "arrives_at_client answer [answer]"
    using sample_answer_arrives by blast
  let ?G = "sample_env\<lparr>env_selects := [Sel_ready], env_reads := chunk_reads [answer]\<rparr>"
  have "\<exists>v. Call sample_zk (\<lambda>_ _. 0) sample_ops sample_proto ?P ?G ?n ?m (Json request) JSON (Json SNull) t
      = Done (Inr True, v, wire, t\<lparr>c_sequence := c_sequence t + 1\<rparr>)"
    using Call_answered [OF z rdy c(1) ser _ _ sent arr, of ?G ?n ?m wire ws' sample_zk "\<lambda>_ _. 0" "Json SNull"] ok
    by (simp add: sample_env_def sample_answer_def JSONSerializer_deserialize_def sample_ops_def sample_result_def Let_def)
  then obtain v where "Call sample_zk (\<lambda>_ _. 0) sample_ops sample_proto ?P ?G ?n ?m (Json request) JSON (Json SNull) t
      = Done (Inr True, v, wire, t\<lparr>c_sequence := c_sequence t + 1\<rparr>)" by blast
  with rq rdy show "\<exists>e s'. performSingleRequest sample_zk (\<lambda>_ _. 0) sample_ops sample_proto ?P e i s
      = Done ((Call_true, 5), s') \<and> ready s'"
    by (intro exI [of _ "request_env_of ?G"] exI [of _ "t\<lparr>c_sequence := c_sequence t + 1\<rparr>"])
       (simp add: performSingleRequest_def t ready_def)
qed


end
