(* ===== verification/Logger.thy ===== *)
theory Logger
  imports Prelude
begin

text \<open>
  \<open>utils/log_manager.h\<close>: \<open>Logger::Init\<close>. The file system and spdlog are outside: what each of their
  calls answers, or that it throws, is an argument. The state is the directories that exist, the
  logger the singleton holds and spdlog's default logger, each named by its log file; \<open>None\<close> as
  default logger is the one spdlog starts with. \<open>make_shared\<close> never returns null, so the tests
  for null pointers have no branch.
\<close>

record logging =
  directories :: "bytes set"
  own_logger :: "bytes option"
  default_logger :: "bytes option"

record log_answers =
  la_exists_throws :: "fault option"
  la_create :: "fault + bool"
  la_console_sink :: "fault option"
  la_file_sink :: "fault option"
  la_logger :: "fault option"
  la_pattern :: "fault option"

definition log_file :: "bytes \<Rightarrow> bytes" where
  "log_file log_dir = log_dir @ str ''/myrpc.log''"

definition Logger_Init :: "log_answers \<Rightarrow> bytes \<Rightarrow> logging \<Rightarrow> bool \<times> logging" where
  "Logger_Init a log_dir s =
     (case la_exists_throws a of Some e \<Rightarrow> (False, s)
      | None \<Rightarrow>
     (case (if log_dir \<in> directories s then (Inr True, s)
            else (la_create a, if la_create a = Inr True then s\<lparr>directories := insert log_dir (directories s)\<rparr> else s)) of
        (Inl e, s) \<Rightarrow> (False, s)
      | (Inr False, s) \<Rightarrow> (False, s)
      | (Inr True, s) \<Rightarrow>
     (case la_console_sink a of Some e \<Rightarrow> (False, s)
      | None \<Rightarrow>
     (case la_file_sink a of Some e \<Rightarrow> (False, s)
      | None \<Rightarrow>
     (case la_logger a of Some e \<Rightarrow> (False, s)
      | None \<Rightarrow>
          let s = s\<lparr>own_logger := Some (log_file log_dir)\<rparr> in
          (case la_pattern a of Some e \<Rightarrow> (False, s)
           | None \<Rightarrow> (True, s\<lparr>default_logger := Some (log_file log_dir)\<rparr>)))))))"

section \<open>Properties\<close>

text \<open>
  \<open>Init\<close> lets no exception through, and it is all or nothing for the program's log: it returns true
  exactly if the default logger now writes to the file in the directory, which then exists; when it
  returns false the default logger is the one from before.
\<close>

theorem logger_default_iff:
  "case Logger_Init a log_dir s of (ok, s') \<Rightarrow>
     (ok \<longrightarrow> default_logger s' = Some (log_file log_dir) \<and> own_logger s' = default_logger s' \<and> log_dir \<in> directories s')
     \<and> (\<not> ok \<longrightarrow> default_logger s' = default_logger s) \<and> directories s \<subseteq> directories s'
     \<and> directories s' \<subseteq> insert log_dir (directories s)"
proof (cases "la_create a")
  case (Inr created)
  then show ?thesis
    by (cases created) (auto simp: Logger_Init_def Let_def split: option.split)
qed (auto simp: Logger_Init_def Let_def split: option.split)

theorem logger_default_iff_witness:
  "let a = \<lparr>la_exists_throws = None, la_create = Inr True, la_console_sink = None, la_file_sink = None, la_logger = None,
             la_pattern = None\<rparr>;
       s = \<lparr>directories = {}, own_logger = None, default_logger = None\<rparr>
   in default_logger (snd (Logger_Init a (str ''../logs'') s)) = Some (str ''../logs/myrpc.log'')"
  using logger_default_iff [where s = "\<lparr>directories = {}, own_logger = None, default_logger = None\<rparr>" and log_dir = "str ''../logs''"
      and a = "\<lparr>la_exists_throws = None, la_create = Inr True, la_console_sink = None, la_file_sink = None, la_logger = None,
        la_pattern = None\<rparr>"]
  by (simp add: Logger_Init_def log_file_def str_def Let_def)

end
