(* ===== verification/Mains.thy ===== *)
theory Mains
  imports Stress_Test Logger
begin

text \<open>
  The small programs of \<open>rpc_src/core\<close>: \<open>client_main.cpp\<close> and the demos of the modules. Each \<open>main\<close>
  is a function of what the world answers; its result is the exit code with what it logs, and an
  exception that leaves \<open>main\<close> ends the program.
\<close>

definition log_directory :: bytes where
  "log_directory = str ''../logs''"

section \<open>The client program\<close>

definition client_request :: "'j json_ops \<Rightarrow> 'j option" where
  "client_request J = json_set J (json_null J) (str ''message'') (str ''hello, i am myrpc client'')"

text \<open>
  The client lives inside the \<open>try\<close> block: when it is left, by a \<open>return\<close> or an exception, its
  destructor disconnects; a client whose constructor threw has no destructor, only its members go.
\<close>

definition destroy_members :: "'z rpc_client \<Rightarrow> 'z rpc_client" where
  "destroy_members s = s\<lparr>c_kernel := destroy_connection (connection_ptr s) (c_kernel s), connection_ptr := None\<rparr>"

definition RpcClient_destroy :: "'z rpc_client \<Rightarrow> 'z rpc_client" where
  "RpcClient_destroy s = destroy_members (Disconnect s)"

definition client_main :: "'z zk_lib \<Rightarrow> (nat \<Rightarrow> int \<Rightarrow> int) \<Rightarrow> 'j json_ops \<Rightarrow> 'm proto_lib \<Rightarrow> platform \<Rightarrow> log_answers
    \<Rightarrow> (nat \<Rightarrow> attempt) \<Rightarrow> call_env \<Rightarrow> bytes option \<Rightarrow> client_config \<Rightarrow> logging \<Rightarrow> 'z rpc_client
    \<Rightarrow> (int \<times> bytes option \<times> logging \<times> 'z rpc_client) run" where
  "client_main L rng J M P a env E file cfg lg s =
     (let lg = snd (Logger_Init a log_directory lg) in
      case RpcClient L J rng env file cfg s of
        (Some e, s) \<Rightarrow> Done (1, None, lg, destroy_members s)
      | (None, client) \<Rightarrow>
          (case client_request J of
             None \<Rightarrow> Done (1, None, lg, RpcClient_destroy client)
           | Some request \<Rightarrow>
               (case Call L rng J M P E (str ''RpcService'') (str ''Echo'') (Json request) JSON (Json (json_null J)) client of
                  Blocked \<Rightarrow> Blocked
                | Fault f \<Rightarrow> Fault f
                | Done (Inr True, Json response, _, client) \<Rightarrow>
                    (case json_dump J response of
                       None \<Rightarrow> Done (1, None, lg, RpcClient_destroy client)
                     | Some text \<Rightarrow> Done (0, Some text, lg, RpcClient_destroy client))
                | Done (_, _, _, client) \<Rightarrow> Done (1, None, lg, RpcClient_destroy client))))"

section \<open>The demos\<close>

definition demo_text :: bytes where
  "demo_text = str ''hello myrpc, this is a test string for compress and encrypt, ''
     @ str ''hello myrpc, this is a test string for compress and encrypt.''"

text \<open>\<open>compress_encrypt_demo_main.cpp\<close>: the exit code and the two comparisons it logs.\<close>

definition compress_encrypt_demo :: "zstd_lib \<Rightarrow> nat \<Rightarrow> (nat \<Rightarrow> int) \<Rightarrow> fault + int \<times> bool list" where
  "compress_encrypt_demo z mem dis =
     (case CompressString z mem DEFAULT demo_text [] of
        Inl e \<Rightarrow> Inl e
      | Inr (False, _) \<Rightarrow> Inr (1, [])
      | Inr (True, compressed) \<Rightarrow>
     (case DecompressString z mem compressed [] of
        Inl e \<Rightarrow> Inl e
      | Inr (False, _) \<Rightarrow> Inr (1, [])
      | Inr (True, decompressed) \<Rightarrow>
     (case Encrypt dis demo_text [] of
        Inl e \<Rightarrow> Inl e
      | Inr (False, _) \<Rightarrow> Inr (1, [decompressed = demo_text])
      | Inr (True, encrypted) \<Rightarrow>
     (case Decrypt encrypted [] of
        Inl e \<Rightarrow> Inl e
      | Inr (False, _) \<Rightarrow> Inr (1, [decompressed = demo_text])
      | Inr (True, decrypted) \<Rightarrow> Inr (0, [decompressed = demo_text, decrypted = demo_text])))))"

text \<open>
  \<open>serializer_demo_main.cpp\<close>: the names it logs after the two round trips. The generated message
  class is outside: a fresh message, \<open>set_name\<close> and \<open>name\<close>.
\<close>

record 'm hello_request =
  hello_fresh :: 'm
  hello_set_name :: "bytes \<Rightarrow> 'm \<Rightarrow> 'm"
  hello_name :: "'m \<Rightarrow> bytes"

definition serializer_demo :: "'j json_ops \<Rightarrow> 'm proto_lib \<Rightarrow> 'm hello_request \<Rightarrow> fault + int \<times> bytes option \<times> bytes option" where
  "serializer_demo J M G =
     (case json_set J (json_null J) (str ''name'') (str ''Alice'') of
        None \<Rightarrow> Inl Json_exception
      | Some req_json \<Rightarrow>
          let json_buf = Manager_serialize J M (Json req_json) JSON in
          (case (case Manager_deserialize J M json_buf (Json (json_null J)) JSON of
                   (True, Json req_json_out) \<Rightarrow>
                     (case json_get_str J (json_at J req_json_out (str ''name'')) of
                        None \<Rightarrow> Inl Json_exception | Some n \<Rightarrow> Inr (Some n))
                 | _ \<Rightarrow> Inr None) of
             Inl e \<Rightarrow> Inl e
           | Inr json_name \<Rightarrow>
               let pb_req = hello_set_name G (str ''Bob'') (hello_fresh G);
                   pb_buf = Manager_serialize J M (Proto pb_req) PROTOBUF
               in (case Manager_deserialize J M pb_buf (Proto (hello_fresh G)) PROTOBUF of
                     (True, Proto pb_req_out) \<Rightarrow> Inr (0, json_name, Some (hello_name G pb_req_out))
                   | _ \<Rightarrow> Inr (0, json_name, None))))"

text \<open>\<open>config_demo_main.cpp\<close>: both configurations, the server's first.\<close>

definition config_demo :: "'z zk_lib \<Rightarrow> 'j json_ops \<Rightarrow> (bytes \<Rightarrow> bytes option) \<Rightarrow> 'z process \<Rightarrow> client_config
    \<Rightarrow> (fault + int) \<times> 'z process \<times> client_config" where
  "config_demo L J files p c =
     (case InitRpcServerConfig L J files (str ''../config/rpc_server.json'') p of
        (False, p) \<Rightarrow> (Inr 1, p, c)
      | (True, p) \<Rightarrow>
          (case InitRpcClientConfig J (files (str ''../config/rpc_client.json'')) c of
             (Inl e, c) \<Rightarrow> (Inl e, p, c)
           | (Inr ok, c) \<Rightarrow> (Inr (if ok then 0 else 1), p, c)))"

text \<open>\<open>log_demo_main.cpp\<close>: the exit code and the log that its four lines go to.\<close>

definition log_demo :: "log_answers \<Rightarrow> logging \<Rightarrow> int \<times> logging" where
  "log_demo a lg = (0, snd (Logger_Init a log_directory lg))"

section \<open>Properties\<close>

lemma Call_connected_inv:
  assumes "Call L rng J M P E sname mname request ty response s = Done (res, v, out, s')"
    and "client_inv base s" and "c_connected s"
  shows "client_inv base s'"
proof -
  let ?E = "E\<lparr>env_attempts := \<lambda>_. \<lparr>att_socket = -1, att_connect = False\<rparr>\<rparr>"
  have E: "env_random ?E = env_random E" "env_writes ?E = env_writes E" "env_selects ?E = env_selects E"
    "env_reads ?E = env_reads E" by simp_all
  have "Call L rng J M P ?E sname mname request ty response s = Call L rng J M P E sname mname request ty response s"
    unfolding Call_def E using assms(3) by simp
  with assms(1) have "Call L rng J M P ?E sname mname request ty response s = Done (res, v, out, s')" by simp
  then show ?thesis by (rule Call_inv [OF _ assms(2)]) (simp add: fresh_sockets_def)
qed

lemma client_inv_destroyed:
  assumes "client_inv base s"
  shows "k_open (c_kernel (RpcClient_destroy s)) = base" and "k_open (c_kernel (destroy_members s)) = base"
proof -
  have "connection_ptr (Disconnect s) = None" by (simp add: Disconnect_def)
  then show "k_open (c_kernel (RpcClient_destroy s)) = base"
    using Disconnect_inv [OF assms] by (simp add: RpcClient_destroy_def destroy_members_def destroy_connection_def)
  have "c_kernel (destroy_members s) = c_kernel (Disconnect s)" by (simp add: destroy_members_def Disconnect_def)
  then show "k_open (c_kernel (destroy_members s)) = base" using Disconnect_inv [OF assms] by simp
qed


text \<open>A client that connects and then has not the memory for its request.\<close>

definition all_answers :: log_answers where
  "all_answers = \<lparr>la_exists_throws = None, la_create = Inr True, la_console_sink = None, la_file_sink = None,
     la_logger = None, la_pattern = None\<rparr>"


text \<open>
  The demo of compression and encryption exits with 0 and logs that both round trips gave back
  the text, for any library that meets the contract and enough memory.
\<close>

theorem compress_encrypt_demo_ok:
  assumes "zstd_lossless z" and "121 \<le> mem" and "ZSTD_compressBound z 121 \<le> mem"
  shows "compress_encrypt_demo z mem dis = Inr (0, [True, True])"
proof -
  have len: "length demo_text = 121" by (simp add: demo_text_def)
  then have ne: "demo_text \<noteq> []" by (metis list.size(3) zero_neq_numeral)
  have "compressible z mem demo_text" using assms len ne by (simp add: compressible_def)
  from zstd.put_get [OF this, of DEFAULT] obtain c where
    c: "CompressString z mem DEFAULT demo_text [] = Inr (True, c)" "DecompressString z mem c [] = Inr (True, demo_text)" by blast
  from aes.put_get [OF ne, of dis] obtain e where
    e: "Encrypt dis demo_text [] = Inr (True, e)" "Decrypt e [] = Inr (True, demo_text)" by blast
  show ?thesis by (simp add: compress_encrypt_demo_def c e)
qed

theorem compress_encrypt_demo_ok_witness: "compress_encrypt_demo stored_zstd 200 (\<lambda>_. 3) = Inr (0, [True, True])"
  by (rule compress_encrypt_demo_ok) (simp_all add: stored_zstd_lossless, simp add: stored_zstd_def)

text \<open>The demo of the serializers logs both names, if both libraries give back what they were given.\<close>

theorem serializer_demo_ok:
  assumes "json_set J (json_null J) (str ''name'') (str ''Alice'') = Some j" and "json_good J j"
    and "json_get_str J (json_at J j (str ''name'')) = Some (str ''Alice'')"
    and "proto_good M (hello_set_name G (str ''Bob'') (hello_fresh G))"
    and "hello_name G (hello_set_name G (str ''Bob'') (hello_fresh G)) = str ''Bob''"
  shows "serializer_demo J M G = Inr (0, Some (str ''Alice''), Some (str ''Bob''))"
  using assms json_format.reads_back [OF assms(2)] proto_format.reads_back [OF assms(4)]
  by (simp add: serializer_demo_def Let_def)

end
