(* ===== verification/Edge_Events.thy ===== *)
theory Edge_Events
  imports Message_Cycle
begin

text \<open>
  The event loop registers clients with \<open>EPOLLIN | EPOLLET\<close> (\<open>HandleNewConnection\<close> in
  \<open>message_cycle.cpp\<close>): the kernel announces a socket once after something has arrived, not for as
  long as something is there. Here the socket's side is modelled too, so that it can be said what
  becomes of bytes and of the end of the stream that arrive together.
\<close>

section \<open>A socket under edge-triggered epoll\<close>

text \<open>
  \<open>es_waiting\<close>: bytes that have arrived and were not read; \<open>es_closed\<close>: the peer has closed its
  side; \<open>es_ready\<close>: an event is due. An event clears \<open>es_ready\<close>, and \<open>HandleClientData\<close> reads what
  waits.
\<close>

record edge_socket =
  es_waiting :: bytes
  es_closed :: bool
  es_ready :: bool

inductive edge_step :: "platform \<Rightarrow> (rpc_request \<Rightarrow> body) \<Rightarrow> int \<Rightarrow> edge_socket \<times> server \<Rightarrow> edge_socket \<times> server \<Rightarrow> bool"
  for P b f where
  e_data: "\<not> es_closed k \<Longrightarrow> chunk \<noteq> [] \<Longrightarrow>
     edge_step P b f (k, s) (k\<lparr>es_waiting := es_waiting k @ chunk, es_ready := True\<rparr>, s)"
| e_close: "\<not> es_closed k \<Longrightarrow> edge_step P b f (k, s) (k\<lparr>es_closed := True, es_ready := True\<rparr>, s)"
| e_poll: "es_ready k \<Longrightarrow> HandleClientData P b (socket_reads (es_waiting k) (es_closed k)) f s = Done s' \<Longrightarrow>
     edge_step P b f (k, s) (k\<lparr>es_waiting := [], es_ready := False\<rparr>, s')"

inductive_cases edge_stepE: "edge_step P b f (k, s) t"

text \<open>Once the end of the stream has been announced nothing happens on the socket any more.\<close>

lemma edge_final:
  assumes "steps (edge_step P b f) (k, s) t" and "es_closed k" and "\<not> es_ready k"
  shows "t = (k, s)"
  by (rule steps_stable [OF assms(1)]) (use assms(2,3) in \<open>auto elim: edge_stepE\<close>)

section \<open>What one event does\<close>

text \<open>A failing read: the connection goes, whatever is in its buffer.\<close>

lemma HandleClientData_failed:
  assumes "conns s f = Some r" and "Read rs (heap s r) = Done (False, c, rs')"
  shows "\<exists>s'. HandleClientData P b rs f s = Done s' \<and> jobs s' = jobs s \<and> conns s' f = None \<and> f \<notin> interest s'"
  using assms by (auto simp: HandleClientData_def GetConnection_def RemoveConnection_def release_def
      Manager_RemoveConnection_def)


lemma sample_no_frame: "drain (frame_cut z mem) [1] = ([], [1], False)" "drain (frame_cut z mem) [] = ([], [], False)"
  by (simp_all add: framing.drain_simps(1) frame_cut_def)




end
