(* ===== verification/Pool_Threads.thy ===== *)
theory Pool_Threads
  imports Thread_Pool
begin

text \<open>
  The non-core threads of a pool over time: \<open>adjust_thread_count\<close> starts one when a task comes in,
  and a worker that has been idle for the keep-alive time returns from \<open>worker_thread\<close>. Nothing takes
  its \<open>std::thread\<close> out of \<open>workers_\<close>; it is joined at the end of the pool only.
\<close>

section \<open>One task by one more thread\<close>

text \<open>A running pool with nothing to do, its core threads waiting and all others gone.\<close>

definition resting :: "pool_config \<Rightarrow> nat \<Rightarrow> pool \<Rightarrow> bool" where
  "resting c n p \<longleftrightarrow> config p = c \<and> tasks p = [] \<and> \<not> stop p \<and> pstate p = RUNNING
     \<and> current_threads p = core_threads c \<and> active_threads p = 0 \<and> waiting p = []
     \<and> workers p = replicate (core_threads c) W_idle @ replicate n W_exited"

lemma resting_new: "resting c 0 (ThreadPool_config c)"
  by (simp add: resting_def ThreadPool_config_def)

text \<open>The pool after a task was queued, which starts a thread, and taken by worker 0.\<close>

definition burst :: "task \<Rightarrow> pool \<Rightarrow> pool" where
  "burst t p = p\<lparr>pushed := t # pushed p, current_threads := current_threads p + 1,
     workers := (workers p @ [W_idle])[0 := W_picked t]\<rparr>"

lemma burst_steps:
  assumes "resting c n p" and "0 < core_threads c" and "core_threads c < max_threads c"
  shows "steps pool_step p (burst t p)"
proof -
  let ?e = "snd (enqueue True t p)"
  have e: "?e = p\<lparr>tasks := [t], pushed := t # pushed p, current_threads := current_threads p + 1,
      workers := workers p @ [W_idle]\<rparr>"
    using assms by (auto simp: resting_def enqueue_def adjust_thread_count_def Let_def)
  have taken: "take_task 0 t ?e = burst t p"
    using assms(1) unfolding e by (simp add: take_task_def burst_def resting_def)
  have "worker_locked False 0 ?e (burst t p)"
    by (rule pick [where t = t]) (use assms(1) taken in \<open>simp_all add: e resting_def is_top_def notify_one_def burst_def\<close>)
  moreover have "0 < length (workers ?e)" "workers ?e ! 0 = W_idle"
    using assms(1,2) by (simp_all add: e resting_def nth_append)
  ultimately have "pool_step ?e (burst t p)" by (blast intro: s_worker w_locked)
  moreover have "pool_step p ?e" by (rule s_enqueue)
  ultimately show ?thesis by (blast intro: steps_refl steps_snoc)
qed

text \<open>Worker 0 executes the task; the new thread finds nothing to do and goes.\<close>

lemma burst_rests:
  assumes "resting c n p" and "0 < core_threads c"
  shows "\<exists>q. steps pool_step (burst t p) q \<and> resting c (Suc n) q \<and> finished q = t # finished p"
proof -
  let ?b = "burst t p" and ?i = "length (workers p)"
  let ?f = "finish_task 0 t (start_task 0 t ?b)"
  let ?q = "?f\<lparr>current_threads := current_threads ?f - 1, workers := (workers ?f)[?i := W_exited]\<rparr>"
  from assms obtain m where m: "core_threads c = Suc m" by (cases "core_threads c") simp_all
  have ws: "workers p = W_idle # replicate m W_idle @ replicate n W_exited" using assms(1) m by (simp add: resting_def)
  have wf: "workers ?f = workers p @ [W_idle]"
    using ws by (simp add: burst_def start_task_def finish_task_def execute_def Let_def)
  have 1: "pool_step ?b (start_task 0 t ?b)"
    by (intro s_worker w_start) (use ws in \<open>simp_all add: burst_def\<close>)
  have 2: "pool_step (start_task 0 t ?b) ?f"
    by (intro s_worker w_finish) (use ws in \<open>simp_all add: burst_def start_task_def\<close>)
  have "worker_locked True ?i ?f ?q"
    by (rule reclaim) (use assms(1) in \<open>simp_all add: resting_def wake_condition_def burst_def start_task_def
        finish_task_def execute_def Let_def\<close>)
  moreover have "?i < length (workers ?f)" "workers ?f ! ?i = W_idle" unfolding wf by simp_all
  ultimately have 3: "pool_step ?f ?q" by (blast intro: s_worker w_locked)
  have "steps pool_step ?b ?q"
    by (rule steps_snoc, rule steps_snoc, rule steps_single, rule 1, rule 2, rule 3)
  moreover have "resting c (Suc n) ?q"
    using assms(1) ws wf by (simp add: resting_def burst_def start_task_def finish_task_def execute_def Let_def
        list_update_append replicate_app_Cons_same replicate_append_same)
  moreover have "finished ?q = t # finished p"
    by (simp add: burst_def start_task_def finish_task_def execute_def Let_def)
  ultimately show ?thesis by blast
qed

lemma resting_reached:
  assumes "0 < core_threads c" and "core_threads c < max_threads c"
  shows "\<exists>p. steps pool_step (ThreadPool_config c) p \<and> resting c (length ts) p \<and> finished p = ts"
proof (induction ts)
  case Nil
  have "finished (ThreadPool_config c) = []" by (simp add: ThreadPool_config_def)
  with steps_refl resting_new show ?case by (metis list.size(3))
next
  case (Cons t ts)
  then obtain p where p: "steps pool_step (ThreadPool_config c) p" "resting c (length ts) p" "finished p = ts" by blast
  from burst_rests [OF p(2) assms(1), of t] p(3) obtain q where
    q: "steps pool_step (burst t p) q" "resting c (length (t # ts)) q" "finished q = t # ts" by auto
  from steps_trans [OF q(1) steps_trans [OF burst_steps [OF p(2) assms] p(1)]] q(2,3) show ?case by blast
qed

section \<open>Property\<close>

text \<open>
  C15. The threads of a dynamic pool are bounded, what they leave behind is not: with at least one
  core thread and more allowed, \<open>n\<close> tasks that come one by one, each after the pool has come to
  rest, can leave \<open>n\<close> finished but unjoined threads in \<open>workers_\<close>, which \<open>size\<close> counts, although in
  the end only the core threads are alive.
\<close>

theorem exited_threads_accumulate:
  assumes "0 < core_threads c" and "core_threads c < max_threads c"
  shows "\<exists>p. steps pool_step (ThreadPool_config c) p \<and> finished p = ts
     \<and> tasks p = [] \<and> active_threads p = 0 \<and> current_threads p = core_threads c
     \<and> alive (workers p) = core_threads c \<and> pool_size p = core_threads c + length ts"
proof -
  from resting_reached [OF assms] obtain p where
    p: "steps pool_step (ThreadPool_config c) p" "resting c (length ts) p" "finished p = ts" by blast
  have "alive (xs @ replicate k W_exited) = alive xs" for xs k by (induction k) (simp_all add: alive_def)
  with p(2) have "alive (workers p) = core_threads c" by (simp add: resting_def count_replicate)
  with p show ?thesis by (intro exI [of _ p]) (simp add: resting_def pool_size_def)
qed

theorem exited_threads_accumulate_witness:
  "\<exists>p. steps pool_step (ThreadPool_config \<lparr>core_threads = 1, max_threads = 2, max_queue_size = 0\<rparr>) p
     \<and> alive (workers p) = 1 \<and> pool_size p = 1001"
  using exited_threads_accumulate [of "\<lparr>core_threads = 1, max_threads = 2, max_queue_size = 0\<rparr>"
      "replicate 1000 \<lparr>task_id = 0, priority = NORMAL, task_body = Returns\<rparr>"] by auto

end
